theory Spec2Isabelle
  imports Main "HOL-Library.Char_ord" "HOL-Library.List_Lexorder"
begin

section \<open>Python values used by the three scripts\<close>

subsection \<open>Strings\<close>

text \<open>
  A Python \<open>str\<close> is modelled as a \<open>string\<close> of ASCII characters, which is what the
  class names, stems and CSV cells of the dataset are. The functions below are the
  ASCII behaviour of the \<open>str\<close> methods the scripts call; a character outside ASCII is
  treated as an uncased symbol that is neither a digit nor white space. Strings are
  ordered as Python orders them, lexicographically by character code.
\<close>

definition is_digit_char :: "char \<Rightarrow> bool" where
  "is_digit_char c = (48 \<le> (of_char c :: nat) \<and> (of_char c :: nat) \<le> 57)"

definition is_upper_char :: "char \<Rightarrow> bool" where
  "is_upper_char c = (65 \<le> (of_char c :: nat) \<and> (of_char c :: nat) \<le> 90)"

definition is_lower_char :: "char \<Rightarrow> bool" where
  "is_lower_char c = (97 \<le> (of_char c :: nat) \<and> (of_char c :: nat) \<le> 122)"

definition is_cased_char :: "char \<Rightarrow> bool" where
  "is_cased_char c = (is_upper_char c \<or> is_lower_char c)"

text \<open>The characters \<open>str.strip()\<close> removes: tab, LF, VT, FF, CR, FS, GS, RS, US, space.\<close>

definition is_space_char :: "char \<Rightarrow> bool" where
  "is_space_char c =
     ((9 \<le> (of_char c :: nat) \<and> (of_char c :: nat) \<le> 13) \<or>
      (28 \<le> (of_char c :: nat) \<and> (of_char c :: nat) \<le> 32))"

definition lower_char :: "char \<Rightarrow> char" where
  "lower_char c = (if is_upper_char c then char_of ((of_char c :: nat) + 32) else c)"

definition upper_char :: "char \<Rightarrow> char" where
  "upper_char c = (if is_lower_char c then char_of ((of_char c :: nat) - 32) else c)"

text \<open>\<open>s.isdigit()\<close>: at least one character, and all of them digits.\<close>

definition str_isdigit :: "string \<Rightarrow> bool" where
  "str_isdigit s = (s \<noteq> [] \<and> list_all is_digit_char s)"

definition str_lower :: "string \<Rightarrow> string" where
  "str_lower s = map lower_char s"

text \<open>
  \<open>s.title()\<close>: a cased character that follows a cased character is lowercased, any
  other character is uppercased. The flag is CPython's \<open>previous_is_cased\<close>.
\<close>

fun title_from :: "bool \<Rightarrow> string \<Rightarrow> string" where
  "title_from previous_is_cased [] = []"
| "title_from previous_is_cased (c # cs) =
     (if previous_is_cased then lower_char c else upper_char c) # title_from (is_cased_char c) cs"

definition str_title :: "string \<Rightarrow> string" where
  "str_title s = title_from False s"

text \<open>\<open>s.capitalize()\<close>: the first character uppercased, the rest lowercased.\<close>

definition str_capitalize :: "string \<Rightarrow> string" where
  "str_capitalize s = (case s of [] \<Rightarrow> [] | c # cs \<Rightarrow> upper_char c # map lower_char cs)"

text \<open>
  \<open>s.replace(old, new)\<close> for one-character \<open>old\<close> and \<open>new\<close>, the only way the scripts
  call it (\<open>replace('_', ' ')\<close> and \<open>replace(' ', '_')\<close>).
\<close>

definition str_replace :: "char \<Rightarrow> char \<Rightarrow> string \<Rightarrow> string" where
  "str_replace old new s = map (\<lambda>c. if c = old then new else c) s"

definition str_strip :: "string \<Rightarrow> string" where
  "str_strip s = rev (dropWhile is_space_char (rev (dropWhile is_space_char s)))"

definition str_endswith :: "string \<Rightarrow> string \<Rightarrow> bool" where
  "str_endswith s suffix = (length suffix \<le> length s \<and> drop (length s - length suffix) s = suffix)"

text \<open>The value of a string of digits, and \<open>str(n)\<close> on an integer.\<close>

definition digit_value :: "char \<Rightarrow> int" where
  "digit_value c = int (of_char c) - 48"

definition int_of_digits :: "string \<Rightarrow> int" where
  "int_of_digits s = foldl (\<lambda>acc c. 10 * acc + digit_value c) 0 s"

function str_nat :: "nat \<Rightarrow> string" where
  "str_nat n = (if n < 10 then [char_of (48 + n)] else str_nat (n div 10) @ [char_of (48 + n mod 10)])"
  by pat_completeness auto
termination
  by (relation "measure (\<lambda>n. n)") auto

definition str_int :: "int \<Rightarrow> string" where
  "str_int i = (if i < 0 then CHR ''-'' # str_nat (nat (- i)) else str_nat (nat i))"

subsection \<open>Sets and dictionaries\<close>

text \<open>
  A Python \<open>set\<close> is given by a list of the elements added to it; \<open>sorted(s)\<close> is then the
  sorted list of its distinct elements.
\<close>

definition sorted_set :: "string list \<Rightarrow> string list" where
  "sorted_set xs = sort (remdups xs)"

text \<open>
  A \<open>dict\<close> keeps its keys in the order of their first insertion, and an assignment to a
  key that is present overwrites the value in place. Iteration (\<open>items()\<close>) follows the
  list.
\<close>

type_synonym ('k, 'v) dict = "('k \<times> 'v) list"

fun dict_set :: "('k, 'v) dict \<Rightarrow> 'k \<Rightarrow> 'v \<Rightarrow> ('k, 'v) dict" where
  "dict_set [] k v = [(k, v)]"
| "dict_set ((k', v') # d) k v = (if k' = k then (k, v) # d else (k', v') # dict_set d k v)"

definition dict_get :: "('k, 'v) dict \<Rightarrow> 'k \<Rightarrow> 'v option" where
  "dict_get d k = map_of d k"

subsection \<open>Floats\<close>

text \<open>
  The reorganizer converts the coordinate cells with \<open>float\<close> and subtracts them. A
  \<open>float\<close> is an IEEE 754 binary64 number: 53 bits of precision, results rounded to the
  nearest representable value, ties to the even mantissa, overflow to infinity at
  \<open>2 ^ 1024\<close>. The model holds the doubles whose value is an integer (the dataset's
  coordinates are pixel positions written as integer literals; sums and differences of
  integer-valued doubles are integer-valued) and the special values. \<open>Finite 0\<close> stands
  for both zeros, which \<open>==\<close> does not tell apart.
\<close>

datatype pyfloat = Finite int | PosInf | NegInf | NaN

function bit_length :: "nat \<Rightarrow> nat" where
  "bit_length n = (if n = 0 then 0 else Suc (bit_length (n div 2)))"
  by pat_completeness auto
termination
  by (relation "measure (\<lambda>n. n)") auto

text \<open>\<open>round_half_even n e\<close> is \<open>n / 2 ^ e\<close> rounded to the nearest integer, ties to even.\<close>

definition round_half_even :: "nat \<Rightarrow> nat \<Rightarrow> nat" where
  "round_half_even n e =
     (let q = n div 2 ^ e; r = n mod 2 ^ e in
      if 2 * r < 2 ^ e then q
      else if 2 ^ e < 2 * r then q + 1
      else if even q then q else q + 1)"

text \<open>The least magnitude that rounds to infinity.\<close>

definition overflow_threshold :: nat where
  "overflow_threshold = 2 ^ 1024"

text \<open>The double nearest to an integer: \<open>float\<close> of an integer literal, and the rounding
  of every exact sum or difference.\<close>

definition float_of_int :: "int \<Rightarrow> pyfloat" where
  "float_of_int n =
     (let a = nat \<bar>n\<bar>;
          e = bit_length a - 53;
          m = round_half_even a e * 2 ^ e in
      if overflow_threshold \<le> m then (if n < 0 then NegInf else PosInf)
      else Finite (if n < 0 then - int m else int m))"

fun float_neg :: "pyfloat \<Rightarrow> pyfloat" where
  "float_neg (Finite a) = Finite (- a)"
| "float_neg PosInf = NegInf"
| "float_neg NegInf = PosInf"
| "float_neg NaN = NaN"

fun float_add :: "pyfloat \<Rightarrow> pyfloat \<Rightarrow> pyfloat" where
  "float_add NaN b = NaN"
| "float_add a NaN = NaN"
| "float_add PosInf NegInf = NaN"
| "float_add NegInf PosInf = NaN"
| "float_add PosInf b = PosInf"
| "float_add NegInf b = NegInf"
| "float_add a PosInf = PosInf"
| "float_add a NegInf = NegInf"
| "float_add (Finite a) (Finite b) = float_of_int (a + b)"

definition float_sub :: "pyfloat \<Rightarrow> pyfloat \<Rightarrow> pyfloat" where
  "float_sub a b = float_add a (float_neg b)"

text \<open>Python's \<open>==\<close> on floats: a NaN equals nothing, itself included.\<close>

definition float_eq :: "pyfloat \<Rightarrow> pyfloat \<Rightarrow> bool" where
  "float_eq a b = (a \<noteq> NaN \<and> b \<noteq> NaN \<and> a = b)"

subsection \<open>Errors, CSV rows and paths\<close>

text \<open>The exceptions the scripts can raise and do not catch end the run.\<close>

datatype error = KeyError | AttributeError | TypeError | ValueError | StopIteration | FileNotFoundError | ImageError

text \<open>
  \<open>int(s)\<close> on a string of digits raises \<open>ValueError\<close> when the string has more than
  4300 characters, the default limit of CPython from 3.11 on
  (\<open>sys.get_int_max_str_digits()\<close>); leading zeros count.
\<close>

definition int_max_str_digits :: nat where
  "int_max_str_digits = 4300"

definition str_to_int :: "string \<Rightarrow> error + int" where
  "str_to_int s = (if int_max_str_digits < length s then Inl ValueError else Inr (int_of_digits s))"

text \<open>
  A row of \<open>csv.DictReader\<close> is a dict from the header's column names to cells. A cell
  is \<open>None\<close> where the line has fewer fields than the header. A CSV file is given by the
  rows its reader yields.
\<close>

type_synonym csv_row = "(string, string option) dict"

text \<open>\<open>row.get(key, '').strip()\<close>: a missing column gives the default, a \<open>None\<close> cell has
  no \<open>strip\<close>.\<close>

definition row_get_strip :: "csv_row \<Rightarrow> string \<Rightarrow> error + string" where
  "row_get_strip row key =
     (case dict_get row key of
        None \<Rightarrow> Inr (str_strip [])
      | Some None \<Rightarrow> Inl AttributeError
      | Some (Some s) \<Rightarrow> Inr (str_strip s))"

text \<open>\<open>row[key].strip()\<close>: a missing column is a \<open>KeyError\<close>.\<close>

definition row_item_strip :: "csv_row \<Rightarrow> string \<Rightarrow> error + string" where
  "row_item_strip row key =
     (case dict_get row key of
        None \<Rightarrow> Inl KeyError
      | Some None \<Rightarrow> Inl AttributeError
      | Some (Some s) \<Rightarrow> Inr (str_strip s))"

text \<open>
  \<open>Path(p).name\<close> and \<open>Path(p).stem\<close> on POSIX: the name is the last component that is
  neither empty nor \<open>.\<close>; the stem drops the last suffix, where a dot that starts or ends
  the name starts no suffix.
\<close>

fun split_on :: "char \<Rightarrow> string \<Rightarrow> string \<Rightarrow> string list" where
  "split_on sep cur [] = [cur]"
| "split_on sep cur (c # cs) = (if c = sep then cur # split_on sep [] cs else split_on sep (cur @ [c]) cs)"

definition path_name :: "string \<Rightarrow> string" where
  "path_name p =
     (case rev (filter (\<lambda>part. part \<noteq> [] \<and> part \<noteq> ''.'') (split_on CHR ''/'' [] p)) of
        [] \<Rightarrow> []
      | part # _ \<Rightarrow> part)"

text \<open>\<open>name.rfind('.')\<close>, as the number of characters before the last dot.\<close>

definition rfind_dot :: "string \<Rightarrow> nat option" where
  "rfind_dot name =
     (if CHR ''.'' \<in> set name then Some (length name - 1 - length (takeWhile (\<lambda>c. c \<noteq> CHR ''.'') (rev name)))
      else None)"

definition name_stem :: "string \<Rightarrow> string" where
  "name_stem name =
     (case rfind_dot name of
        None \<Rightarrow> name
      | Some i \<Rightarrow> if 0 < i \<and> i < length name - 1 then take i name else name)"

definition path_stem :: "string \<Rightarrow> string" where
  "path_stem p = name_stem (path_name p)"

text \<open>
  The loop \<open>for ext in ['.jpg', '.jpeg', '.png']\<close> that looks for
  \<open>images_dir / f"{stem}{ext}"\<close>: the first extension whose file exists.
  \<open>image_exists\<close> tells which paths under the images directory exist.
\<close>

fun find_image :: "(string \<Rightarrow> bool) \<Rightarrow> string \<Rightarrow> string list \<Rightarrow> string option" where
  "find_image image_exists stem [] = None"
| "find_image image_exists stem (ext # exts) =
     (if image_exists (stem @ ext) then Some (stem @ ext) else find_image image_exists stem exts)"

definition image_extensions :: "string list" where
  "image_extensions = [''.jpg'', ''.jpeg'', ''.png'']"

section \<open>The reorganizer (reorganize\_dataset.py)\<close>

subsection \<open>convert\_bbox\_format\<close>

text \<open>
  \<open>convert_bbox_format(xmin, ymin, xmax, ymax)\<close>. The arguments are the CSV cells, given
  by the integers their literals denote; each \<open>float(...)\<close> call of the source is a
  \<open>float_of_int\<close> here.
\<close>

definition convert_bbox_format :: "int \<Rightarrow> int \<Rightarrow> int \<Rightarrow> int \<Rightarrow> pyfloat \<times> pyfloat \<times> pyfloat \<times> pyfloat" where
  "convert_bbox_format xmin ymin xmax ymax =
     (let x = float_of_int xmin;
          y = float_of_int ymin;
          width = float_sub (float_of_int xmax) (float_of_int xmin);
          height = float_sub (float_of_int ymax) (float_of_int ymin)
      in (x, y, width, height))"

text \<open>The spec's re-derivation of the far corner from a converted box: \<open>(x + w, y + h)\<close>.\<close>

definition rederive_max :: "pyfloat \<times> pyfloat \<times> pyfloat \<times> pyfloat \<Rightarrow> pyfloat \<times> pyfloat" where
  "rederive_max b = (case b of (x, y, w, h) \<Rightarrow> (float_add x w, float_add y h))"

subsection \<open>get\_all\_classes and create\_labelmap\<close>

text \<open>The inner loop of \<open>get_all_classes\<close> over the rows of one file; \<open>classes\<close> is the
  set built so far.\<close>

fun collect_classes :: "string list \<Rightarrow> csv_row list \<Rightarrow> error + string list" where
  "collect_classes classes [] = Inr classes"
| "collect_classes classes (row # rows) =
     (case row_get_strip row ''class'' of
        Inl e \<Rightarrow> Inl e
      | Inr class_name \<Rightarrow>
          if class_name \<noteq> [] \<and> \<not> str_isdigit class_name
          then collect_classes (classes @ [class_name]) rows
          else collect_classes classes rows)"

fun collect_all_classes :: "string list \<Rightarrow> csv_row list list \<Rightarrow> error + string list" where
  "collect_all_classes classes [] = Inr classes"
| "collect_all_classes classes (csv_file # csv_files) =
     (case collect_classes classes csv_file of
        Inl e \<Rightarrow> Inl e
      | Inr classes' \<Rightarrow> collect_all_classes classes' csv_files)"

definition get_all_classes :: "csv_row list list \<Rightarrow> error + string list" where
  "get_all_classes csv_files =
     (case collect_all_classes [] csv_files of
        Inl e \<Rightarrow> Inl e
      | Inr classes \<Rightarrow> Inr (sorted_set classes))"

record labelmap_entry =
  object_id :: int
  label_id :: int
  keyboard_shortcut :: string
  object_name :: string

definition background_entry :: labelmap_entry where
  "background_entry =
     \<lparr>object_id = 0, label_id = 0, keyboard_shortcut = ''0'', object_name = ''background''\<rparr>"

text \<open>The body of the loop \<open>for idx, class_name in enumerate(sorted(classes), start=1)\<close>,
  on the labelmap and the \<open>class_to_id\<close> dict built so far.\<close>

fun create_labelmap_loop ::
  "labelmap_entry list \<times> (string, int) dict \<Rightarrow> int \<Rightarrow> string list \<Rightarrow> labelmap_entry list \<times> (string, int) dict" where
  "create_labelmap_loop acc idx [] = acc"
| "create_labelmap_loop (labelmap, class_to_id) idx (class_name # rest) =
     create_labelmap_loop
       (labelmap @
          [\<lparr>object_id = idx, label_id = idx, keyboard_shortcut = str_int idx,
            object_name = str_replace CHR '' '' CHR ''_'' (str_lower class_name)\<rparr>],
        dict_set class_to_id class_name idx)
       (idx + 1) rest"

text \<open>\<open>create_labelmap\<close>: the list written to \<open>labelmap.json\<close>, and the returned dict.\<close>

definition create_labelmap :: "string list \<Rightarrow> labelmap_entry list \<times> (string, int) dict" where
  "create_labelmap classes = create_labelmap_loop ([background_entry], []) 1 (sort classes)"

subsection \<open>create\_sets\_files\<close>

text \<open>The nested \<open>get_image_stems\<close>; \<open>stems\<close> is the set built so far.\<close>

fun get_image_stems_loop :: "(string \<Rightarrow> bool) \<Rightarrow> string list \<Rightarrow> csv_row list \<Rightarrow> error + string list" where
  "get_image_stems_loop image_exists stems [] = Inr stems"
| "get_image_stems_loop image_exists stems (row # rows) =
     (case row_item_strip row ''filename'' of
        Inl e \<Rightarrow> Inl e
      | Inr filename \<Rightarrow>
          if filename \<noteq> [] then
            (case find_image image_exists (path_stem filename) image_extensions of
               Some found \<Rightarrow> get_image_stems_loop image_exists (stems @ [path_stem filename]) rows
             | None \<Rightarrow> get_image_stems_loop image_exists stems rows)
          else get_image_stems_loop image_exists stems rows)"

definition get_image_stems :: "(string \<Rightarrow> bool) \<Rightarrow> csv_row list \<Rightarrow> error + string list" where
  "get_image_stems image_exists csv_file = get_image_stems_loop image_exists [] csv_file"

text \<open>
  The files of the sets directory are a dict from file names to their lines; a file
  opened for writing again is overwritten. The second component is the returned triple.
\<close>

definition create_sets_files ::
  "(string \<Rightarrow> bool) \<Rightarrow> csv_row list \<Rightarrow> csv_row list \<Rightarrow> error + (string, string list) dict \<times> (nat \<times> nat \<times> nat)" where
  "create_sets_files image_exists train_csv test_csv =
     (case get_image_stems image_exists train_csv of
        Inl e \<Rightarrow> Inl e
      | Inr train_stems \<Rightarrow>
     (case get_image_stems image_exists test_csv of
        Inl e \<Rightarrow> Inl e
      | Inr test_stems \<Rightarrow>
          let files = dict_set [] ''train.txt'' (sorted_set train_stems);
              files = dict_set files ''test.txt'' (sorted_set test_stems);
              all_stems = train_stems @ test_stems;
              files = dict_set files ''all.txt'' (sorted_set all_stems);
              train_list = sorted_set train_stems;
              val_size = length train_list div 5;
              val_stems = take val_size train_list;
              train_only_stems = drop val_size train_list;
              files = dict_set files ''val.txt'' (sorted_set val_stems);
              files = dict_set files ''train.txt'' (sorted_set train_only_stems);
              train_val_stems = train_only_stems @ val_stems;
              files = dict_set files ''train_val.txt'' (sorted_set train_val_stems)
          in Inr (files,
                  (length (remdups train_only_stems), length (remdups val_stems),
                   length (remdups test_stems)))))"

section \<open>The COCO exporter (convert\_to\_coco.py)\<close>

subsection \<open>Categories\<close>

text \<open>A COCO category \<open>{"id": ..., "name": ..., "supercategory": ...}\<close>.\<close>

record category =
  category_id :: int
  category_name :: string
  supercategory :: string

text \<open>The loop of \<open>collect_annotations_for_split\<close> that builds \<open>categories\<close> from the
  labelmap, on the list built so far.\<close>

fun categories_loop :: "category list \<Rightarrow> labelmap_entry list \<Rightarrow> category list" where
  "categories_loop categories [] = categories"
| "categories_loop categories (item # labelmap) =
     (if object_id item > 0
      then categories_loop
             (categories @
                [\<lparr>category_id = label_id item, category_name = object_name item,
                  supercategory = ''plant_disease''\<rparr>])
             labelmap
      else categories_loop categories labelmap)"

subsection \<open>read\_split\_list and load\_labelmap\<close>

text \<open>A split file is given by the lines \<open>splitlines()\<close> yields, \<open>None\<close> when it does not
  exist.\<close>

definition read_split_list :: "string list option \<Rightarrow> string list" where
  "read_split_list split_file =
     (case split_file of
        None \<Rightarrow> []
      | Some file_lines \<Rightarrow> filter (\<lambda>line. line \<noteq> []) (map str_strip file_lines))"

fun load_labelmap_loop :: "(string, int) dict \<Rightarrow> labelmap_entry list \<Rightarrow> (string, int) dict" where
  "load_labelmap_loop class_to_id [] = class_to_id"
| "load_labelmap_loop class_to_id (item # labelmap) =
     (if object_id item > 0 then
        let obj_name = object_name item;
            label = label_id item;
            class_to_id = dict_set class_to_id obj_name label;
            class_to_id = dict_set class_to_id (str_replace CHR ''_'' CHR '' '' obj_name) label;
            class_to_id = dict_set class_to_id (str_title (str_replace CHR ''_'' CHR '' '' obj_name)) label;
            class_to_id = dict_set class_to_id (str_title obj_name) label
        in load_labelmap_loop class_to_id labelmap
      else load_labelmap_loop class_to_id labelmap)"

definition load_labelmap :: "labelmap_entry list \<Rightarrow> (string, int) dict" where
  "load_labelmap labelmap = load_labelmap_loop [] labelmap"

subsection \<open>parse\_csv\_boxes\<close>

text \<open>
  The exporter parses the numeric cells with \<open>float\<close> and multiplies two of them. The
  type \<open>'n\<close> stands for the floats, with their zero and product; \<open>to_float\<close> is \<open>float\<close>
  on a string, \<open>None\<close> where it raises \<open>ValueError\<close>.

  \<open>float(row.get(key, 0))\<close>: a missing column gives \<open>float(0)\<close>, a \<open>None\<close> cell is a
  \<open>TypeError\<close>.
\<close>

definition get_float :: "(string \<Rightarrow> 'n option) \<Rightarrow> csv_row \<Rightarrow> string \<Rightarrow> error + 'n::{zero,times}" where
  "get_float to_float row key =
     (case dict_get row key of
        None \<Rightarrow> Inr 0
      | Some None \<Rightarrow> Inl TypeError
      | Some (Some s) \<Rightarrow> (case to_float s of None \<Rightarrow> Inl ValueError | Some v \<Rightarrow> Inr v))"

text \<open>The loop \<open>for key, val in class_to_id.items()\<close> that breaks at the first key equal to
  the label when both are lowercased.\<close>

fun scan_items :: "(string, int) dict \<Rightarrow> string \<Rightarrow> int option" where
  "scan_items [] label = None"
| "scan_items ((key, val) # items) label =
     (if str_lower key = str_lower label then Some val else scan_items items label)"

text \<open>Lines 79 to 92 of \<open>parse_csv_boxes\<close>: the \<open>category_id\<close> of a stripped label: the
  exception \<open>int(label)\<close> raises, \<open>None\<close> when nothing matches, or the id.\<close>

definition category_id_of_label :: "(string, int) dict \<Rightarrow> string \<Rightarrow> error + int option" where
  "category_id_of_label class_to_id label =
     (if str_isdigit label then
        (case str_to_int label of Inl e \<Rightarrow> Inl e | Inr found_id \<Rightarrow> Inr (Some found_id))
      else
        let normalized = str_replace CHR '' '' CHR ''_'' (str_lower label) in
        case dict_get class_to_id normalized of
          Some found_id \<Rightarrow> Inr (Some found_id)
        | None \<Rightarrow> Inr (scan_items class_to_id label))"

record 'n box =
  box_x :: 'n
  box_y :: 'n
  box_width :: 'n
  box_height :: 'n
  box_category_id :: int
  box_area :: 'n

text \<open>The body of the \<open>try\<close> for one row: an exception, \<open>None\<close> where the row is skipped
  for its label, or the annotation.\<close>

definition parse_row :: "(string \<Rightarrow> 'n option) \<Rightarrow> (string, int) dict \<Rightarrow> csv_row \<Rightarrow> error + ('n::{zero,times}) box option" where
  "parse_row to_float class_to_id row =
     (case get_float to_float row ''x'' of Inl e \<Rightarrow> Inl e | Inr x \<Rightarrow>
     (case get_float to_float row ''y'' of Inl e \<Rightarrow> Inl e | Inr y \<Rightarrow>
     (case get_float to_float row ''width'' of Inl e \<Rightarrow> Inl e | Inr width \<Rightarrow>
     (case get_float to_float row ''height'' of Inl e \<Rightarrow> Inl e | Inr height \<Rightarrow>
     (case row_get_strip row ''label'' of Inl e \<Rightarrow> Inl e | Inr label \<Rightarrow>
     (case category_id_of_label class_to_id label of
        Inl e \<Rightarrow> Inl e
      | Inr None \<Rightarrow> Inr None
      | Inr (Some found_id) \<Rightarrow>
          Inr (Some \<lparr>box_x = x, box_y = y, box_width = width, box_height = height,
                     box_category_id = found_id, box_area = width * height\<rparr>)))))))"

text \<open>The loop over the rows with its \<open>except (ValueError, KeyError): continue\<close>; any
  other exception ends the run.\<close>

fun parse_rows :: "(string \<Rightarrow> 'n option) \<Rightarrow> (string, int) dict \<Rightarrow> 'n box list \<Rightarrow> csv_row list \<Rightarrow> error + ('n::{zero,times}) box list" where
  "parse_rows to_float class_to_id annotations [] = Inr annotations"
| "parse_rows to_float class_to_id annotations (row # rows) =
     (case parse_row to_float class_to_id row of
        Inl e \<Rightarrow>
          if e = ValueError \<or> e = KeyError then parse_rows to_float class_to_id annotations rows
          else Inl e
      | Inr None \<Rightarrow> parse_rows to_float class_to_id annotations rows
      | Inr (Some annotation) \<Rightarrow> parse_rows to_float class_to_id (annotations @ [annotation]) rows)"

text \<open>A per-image CSV: \<open>None\<close> where the file does not exist, \<open>Some None\<close> where it has no
  header line (\<open>reader.fieldnames is None\<close>), else its rows.\<close>

definition parse_csv_boxes :: "(string \<Rightarrow> 'n option) \<Rightarrow> csv_row list option option \<Rightarrow> (string, int) dict \<Rightarrow> error + ('n::{zero,times}) box list" where
  "parse_csv_boxes to_float csv_path class_to_id =
     (case csv_path of
        None \<Rightarrow> Inr []
      | Some None \<Rightarrow> Inr []
      | Some (Some rows) \<Rightarrow> parse_rows to_float class_to_id [] rows)"

subsection \<open>collect\_annotations\_for\_split\<close>

text \<open>
  The dataset directory \<open>category_root\<close>: \<open>labelmap.json\<close> (\<open>None\<close> when it cannot be
  loaded), the files of \<open>sets/\<close> by name, the file names in \<open>images/\<close> as a scan lists
  them, which paths under \<open>images/\<close> exist, the size PIL reads from an image (\<open>None\<close> when
  it raises), and the files of \<open>csv/\<close> by name.
\<close>

record dataset =
  ds_labelmap :: "labelmap_entry list option"
  ds_sets :: "string \<Rightarrow> string list option"
  ds_listing :: "string list"
  ds_exists :: "string \<Rightarrow> bool"
  ds_image_size :: "string \<Rightarrow> (int \<times> int) option"
  ds_csv :: "string \<Rightarrow> csv_row list option option"

text \<open>\<open>images_dir.glob("*" + ext)\<close>: the listed names that end with the extension.\<close>

definition glob_ext :: "string list \<Rightarrow> string \<Rightarrow> string list" where
  "glob_ext listing ext = filter (\<lambda>name. str_endswith name ext) listing"

text \<open>Lines 141 to 148: the set \<open>image_stems\<close>, by the elements added to it.\<close>

definition image_stems :: "dataset \<Rightarrow> string \<Rightarrow> string list" where
  "image_stems ds split_name =
     (let stems = read_split_list (ds_sets ds (split_name @ ''.txt'')) in
      if stems = [] then
        map name_stem (glob_ext (ds_listing ds) ''.jpg'') @
        map name_stem (glob_ext (ds_listing ds) ''.jpeg'') @
        map name_stem (glob_ext (ds_listing ds) ''.png'')
      else stems)"

record image_entry =
  image_id :: int
  file_name :: string
  image_width :: int
  image_height :: int

record 'n annotation =
  ann_id :: int
  ann_image_id :: int
  ann_category_id :: int
  ann_bbox :: "'n list"
  ann_area :: 'n
  ann_iscrowd :: int

text \<open>The loop \<open>for box in boxes\<close>, on \<open>annotations\<close> and \<open>ann_id_counter\<close>.\<close>

fun boxes_loop :: "'n annotation list \<times> int \<Rightarrow> int \<Rightarrow> 'n box list \<Rightarrow> 'n annotation list \<times> int" where
  "boxes_loop acc image_id_counter [] = acc"
| "boxes_loop (annotations, ann_id_counter) image_id_counter (b # boxes) =
     boxes_loop
       (annotations @
          [\<lparr>ann_id = ann_id_counter, ann_image_id = image_id_counter,
            ann_category_id = box_category_id b,
            ann_bbox = [box_x b, box_y b, box_width b, box_height b],
            ann_area = box_area b, ann_iscrowd = 0\<rparr>],
        ann_id_counter + 1)
       image_id_counter boxes"

text \<open>The loop \<open>for stem in sorted(image_stems)\<close>, on \<open>images\<close>, \<open>annotations\<close> and the
  two counters. \<open>category\<close> is the name of \<open>category_root\<close>, the first part of every
  \<open>file_name\<close>.\<close>

fun stems_loop ::
  "(string \<Rightarrow> 'n option) \<Rightarrow> dataset \<Rightarrow> string \<Rightarrow> (string, int) dict \<Rightarrow>
   image_entry list \<times> 'n annotation list \<times> int \<times> int \<Rightarrow> string list \<Rightarrow>
   error + image_entry list \<times> ('n::{zero,times}) annotation list \<times> int \<times> int" where
  "stems_loop to_float ds category class_to_id acc [] = Inr acc"
| "stems_loop to_float ds category class_to_id (images, annotations, image_id_counter, ann_id_counter) (stem # stems) =
     (case find_image (ds_exists ds) stem image_extensions of
        None \<Rightarrow>
          stems_loop to_float ds category class_to_id
            (images, annotations, image_id_counter, ann_id_counter) stems
      | Some img_name \<Rightarrow>
     (case ds_image_size ds img_name of
        None \<Rightarrow> Inl ImageError
      | Some (width, height) \<Rightarrow>
     (case parse_csv_boxes to_float (ds_csv ds (stem @ ''.csv'')) class_to_id of
        Inl e \<Rightarrow> Inl e
      | Inr boxes \<Rightarrow>
          let images = images @
                [\<lparr>image_id = image_id_counter, file_name = category @ ''/images/'' @ img_name,
                  image_width = width, image_height = height\<rparr>];
              (annotations, ann_id_counter) =
                boxes_loop (annotations, ann_id_counter) image_id_counter boxes
          in stems_loop to_float ds category class_to_id
               (images, annotations, image_id_counter + 1, ann_id_counter) stems)))"

definition collect_annotations_for_split ::
  "(string \<Rightarrow> 'n option) \<Rightarrow> dataset \<Rightarrow> string \<Rightarrow> string \<Rightarrow>
   error + image_entry list \<times> ('n::{zero,times}) annotation list \<times> category list" where
  "collect_annotations_for_split to_float ds split_name category =
     (case ds_labelmap ds of
        None \<Rightarrow> Inl FileNotFoundError
      | Some labelmap \<Rightarrow>
          let class_to_id = load_labelmap labelmap;
              categories = categories_loop [] labelmap;
              stems = image_stems ds split_name
          in case stems_loop to_float ds category class_to_id ([], [], 1, 1) (sorted_set stems) of
               Inl e \<Rightarrow> Inl e
             | Inr (images, annotations, image_id_counter, ann_id_counter) \<Rightarrow>
                 Inr (images, annotations, categories))"

subsection \<open>build\_coco\_dict and convert\<close>

record 'n coco =
  info_year :: int
  info_version :: string
  info_description :: string
  info_url :: string
  coco_images :: "image_entry list"
  coco_annotations :: "'n annotation list"
  coco_categories :: "category list"
  coco_licenses :: "unit list"

definition build_coco_dict ::
  "image_entry list \<Rightarrow> 'n annotation list \<Rightarrow> category list \<Rightarrow> string \<Rightarrow> 'n coco" where
  "build_coco_dict images annotations categories description =
     \<lparr>info_year = 2020, info_version = ''1.0.0'', info_description = description,
      info_url = ''https://github.com/pratikkayal/PlantDoc-Dataset'',
      coco_images = images, coco_annotations = annotations, coco_categories = categories,
      coco_licenses = []\<rparr>"

text \<open>
  \<open>convert\<close>: the loop over the splits, on the JSON files written so far (a dict from
  paths to documents) and the lines printed so far. An exception ends the run.
\<close>

fun convert_loop ::
  "(string \<Rightarrow> 'n option) \<Rightarrow> dataset \<Rightarrow> string \<Rightarrow> string \<Rightarrow>
   (string, 'n coco) dict \<times> string list \<Rightarrow> string list \<Rightarrow>
   error + (string, ('n::{zero,times}) coco) dict \<times> string list" where
  "convert_loop to_float ds out_dir category acc [] = Inr acc"
| "convert_loop to_float ds out_dir category (written, printed) (split_name # splits) =
     (case collect_annotations_for_split to_float ds split_name category of
        Inl e \<Rightarrow> Inl e
      | Inr (images, annotations, categories) \<Rightarrow>
          let desc = ''PlantDoc '' @ category @ '' '' @ split_name @ '' split'';
              coco_doc = build_coco_dict images annotations categories desc;
              out_path = out_dir @ ''/'' @ category @ ''_instances_'' @ split_name @ ''.json'';
              message = ''Generated '' @ out_path @ '': '' @ str_int (int (length images)) @
                '' images, '' @ str_int (int (length annotations)) @ '' annotations, '' @
                str_int (int (length categories)) @ '' categories''
          in convert_loop to_float ds out_dir category
               (dict_set written out_path coco_doc, printed @ [message]) splits)"

definition convert ::
  "(string \<Rightarrow> 'n option) \<Rightarrow> dataset \<Rightarrow> string \<Rightarrow> string \<Rightarrow> string list \<Rightarrow>
   error + (string, ('n::{zero,times}) coco) dict \<times> string list" where
  "convert to_float ds out_dir category splits =
     convert_loop to_float ds out_dir category ([], []) splits"

section \<open>The label updater (update\_csv\_labels.py)\<close>

subsection \<open>The table class\_to\_id\<close>

text \<open>Lines 39 to 54: the spellings generated for one \<open>object_name\<close>.\<close>

definition variations :: "string \<Rightarrow> string list" where
  "variations obj_name =
     [obj_name,
      str_replace CHR ''_'' CHR '' '' obj_name,
      str_title (str_replace CHR ''_'' CHR '' '' obj_name),
      str_title obj_name,
      str_capitalize (str_replace CHR ''_'' CHR '' '' obj_name)] @
     (if str_endswith obj_name ''_leaf'' then
        let base = take (length obj_name - 5) obj_name in
        [str_replace CHR ''_'' CHR '' '' base @ '' leaf'',
         str_title (str_replace CHR ''_'' CHR '' '' base) @ '' leaf'',
         str_title base @ '' leaf'']
      else [])"

text \<open>The loop \<open>for var in variations: class_to_id[var] = label_id\<close>.\<close>

fun set_variations :: "(string, int) dict \<Rightarrow> string list \<Rightarrow> int \<Rightarrow> (string, int) dict" where
  "set_variations class_to_id [] label = class_to_id"
| "set_variations class_to_id (var # vars) label =
     set_variations (dict_set class_to_id var label) vars label"

text \<open>Lines 33 to 57: the loop over the labelmap.\<close>

fun variations_loop :: "(string, int) dict \<Rightarrow> labelmap_entry list \<Rightarrow> (string, int) dict" where
  "variations_loop class_to_id [] = class_to_id"
| "variations_loop class_to_id (item # labelmap) =
     (if object_id item > 0
      then variations_loop (set_variations class_to_id (variations (object_name item)) (label_id item)) labelmap
      else variations_loop class_to_id labelmap)"

text \<open>Lines 64 to 67: the \<open>label_id\<close> of the first entry past the background whose
  \<open>object_name\<close> is the normalized class name.\<close>

fun first_named :: "labelmap_entry list \<Rightarrow> string \<Rightarrow> int option" where
  "first_named [] normalized = None"
| "first_named (item # labelmap) normalized =
     (if object_id item > 0 \<and> object_name item = normalized then Some (label_id item)
      else first_named labelmap normalized)"

text \<open>Lines 60 to 74: the loop over the original class names.\<close>

fun original_classes_loop ::
  "labelmap_entry list \<Rightarrow> (string, int) dict \<Rightarrow> string list \<Rightarrow> (string, int) dict" where
  "original_classes_loop labelmap class_to_id [] = class_to_id"
| "original_classes_loop labelmap class_to_id (orig_class # rest) =
     (let normalized = str_replace CHR '' '' CHR ''_'' (str_lower orig_class);
          class_to_id =
            (case first_named labelmap normalized of
               Some label \<Rightarrow> dict_set class_to_id orig_class label
             | None \<Rightarrow> class_to_id);
          class_to_id =
            (if dict_get class_to_id orig_class = None then
               (case scan_items class_to_id orig_class of
                  Some val \<Rightarrow> dict_set class_to_id orig_class val
                | None \<Rightarrow> class_to_id)
             else class_to_id)
      in original_classes_loop labelmap class_to_id rest)"

text \<open>
  Lines 21 to 30: the set \<open>original_classes\<close>, read from those of the two flat CSVs
  that exist (\<open>None\<close> is a file that does not). The loop over the rows of one file is the
  one of \<open>get_all_classes\<close>.
\<close>

fun read_original_classes :: "string list \<Rightarrow> csv_row list option list \<Rightarrow> error + string list" where
  "read_original_classes original_classes [] = Inr original_classes"
| "read_original_classes original_classes (None # csv_files) =
     read_original_classes original_classes csv_files"
| "read_original_classes original_classes (Some rows # csv_files) =
     (case collect_classes original_classes rows of
        Inl e \<Rightarrow> Inl e
      | Inr original_classes' \<Rightarrow> read_original_classes original_classes' csv_files)"

text \<open>
  The table. Python iterates over the set \<open>original_classes\<close> in an order of its own:
  \<open>set_order\<close> gives that order from the elements added.
\<close>

definition build_class_to_id ::
  "(string list \<Rightarrow> string list) \<Rightarrow> labelmap_entry list \<Rightarrow> string list \<Rightarrow> (string, int) dict" where
  "build_class_to_id set_order labelmap original_classes =
     original_classes_loop labelmap (variations_loop [] labelmap) (set_order original_classes)"

subsection \<open>Rewriting the per-image CSV files\<close>

text \<open>Lines 91 to 101: the \<open>label_id\<close> of a stripped class name, \<open>None\<close> when nothing
  matches.\<close>

definition label_id_of_class_name :: "(string, int) dict \<Rightarrow> string \<Rightarrow> int option" where
  "label_id_of_class_name class_to_id class_name =
     (case dict_get class_to_id class_name of
        Some label \<Rightarrow> Some label
      | None \<Rightarrow> scan_items class_to_id class_name)"

text \<open>
  A per-image CSV is given by the rows \<open>csv.reader\<close> yields, the header first. The loop
  over the rows after the header works on \<open>rows\<close>, \<open>updated\<close> and the lines printed.
\<close>

fun update_rows ::
  "(string, int) dict \<Rightarrow> string \<Rightarrow> string list list \<times> bool \<times> string list \<Rightarrow> string list list \<Rightarrow>
   string list list \<times> bool \<times> string list" where
  "update_rows class_to_id csv_name acc [] = acc"
| "update_rows class_to_id csv_name (rows, updated, printed) (row # rest) =
     (if 6 \<le> length row then
        (let class_name = str_strip (row ! 5) in
         case label_id_of_class_name class_to_id class_name of
           Some label \<Rightarrow>
             update_rows class_to_id csv_name (rows @ [row[5 := str_int label]], True, printed) rest
         | None \<Rightarrow>
             update_rows class_to_id csv_name
               (rows @ [row], updated,
                printed @ [''Warning: Could not find label ID for '' @ [CHR 0x27] @ class_name @
                           [CHR 0x27] @ '' in '' @ csv_name])
               rest)
      else update_rows class_to_id csv_name (rows @ [row], updated, printed) rest)"

text \<open>
  The state of a run: the files of the csv directory in the order of the glob, the
  names of the files written back, the lines printed, and the exception that ended the
  run, if one did.
\<close>

record updater_run =
  run_files :: "(string \<times> string list list) list"
  run_written :: "string list"
  run_printed :: "string list"
  run_error :: "error option"

text \<open>The loop over the files; \<open>next(reader)\<close> on a file without a line raises
  \<open>StopIteration\<close>. The files already handled come first in the state.\<close>

fun update_files ::
  "(string, int) dict \<Rightarrow> (string \<times> string list list) list \<times> string list \<times> string list \<times> int \<Rightarrow>
   (string \<times> string list list) list \<Rightarrow> updater_run" where
  "update_files class_to_id (handled, written, printed, updated_count) [] =
     \<lparr>run_files = handled, run_written = written,
      run_printed = printed @ [''Updated '' @ str_int updated_count @ '' CSV files''],
      run_error = None\<rparr>"
| "update_files class_to_id (handled, written, printed, updated_count) ((name, content) # csv_files) =
     (case content of
        [] \<Rightarrow>
          \<lparr>run_files = handled @ (name, content) # csv_files, run_written = written,
           run_printed = printed, run_error = Some StopIteration\<rparr>
      | header # body \<Rightarrow>
          (case update_rows class_to_id name ([header], False, printed) body of
             (rows, updated, printed') \<Rightarrow>
               if updated
               then update_files class_to_id
                      (handled @ [(name, rows)], written @ [name], printed', updated_count + 1) csv_files
               else update_files class_to_id
                      (handled @ [(name, content)], written, printed', updated_count) csv_files))"

definition update_csv_labels ::
  "(string list \<Rightarrow> string list) \<Rightarrow> labelmap_entry list option \<Rightarrow> csv_row list option list \<Rightarrow>
   (string \<times> string list list) list \<Rightarrow> updater_run" where
  "update_csv_labels set_order labelmap_json original_csvs csv_dir =
     (case labelmap_json of
        None \<Rightarrow>
          \<lparr>run_files = csv_dir, run_written = [], run_printed = [],
           run_error = Some FileNotFoundError\<rparr>
      | Some labelmap \<Rightarrow>
     (case read_original_classes [] original_csvs of
        Inl e \<Rightarrow>
          \<lparr>run_files = csv_dir, run_written = [], run_printed = [], run_error = Some e\<rparr>
      | Inr original_classes \<Rightarrow>
          update_files (build_class_to_id set_order labelmap original_classes) ([], [], [], 0) csv_dir))"

subsection \<open>The resolution order of the spec\<close>

text \<open>
  The spec's four steps for an incoming label against a variant table: a numeric
  string is its own id; else an exact match; else a match of the lowercased label with
  spaces replaced by underscores; else the first variant, in the order of the table,
  that equals the label when both are lowercased.
\<close>

definition spec_resolve :: "(string, int) dict \<Rightarrow> string \<Rightarrow> int option" where
  "spec_resolve variants label =
     (if str_isdigit label then Some (int_of_digits label)
      else case dict_get variants label of
        Some found_id \<Rightarrow> Some found_id
      | None \<Rightarrow>
          (case dict_get variants (str_replace CHR '' '' CHR ''_'' (str_lower label)) of
             Some found_id \<Rightarrow> Some found_id
           | None \<Rightarrow>
               map_option snd (find (\<lambda>(variant, found_id). str_lower variant = str_lower label) variants)))"

subsection \<open>Canonical names\<close>

text \<open>
  The spec's canonical class name is lowercase and underscore-separated: it has no
  uppercase letter and no space. Every \<open>object_name\<close> that \<open>create_labelmap\<close> writes is
  one.
\<close>

definition canonical_name :: "string \<Rightarrow> bool" where
  "canonical_name s = list_all (\<lambda>c. \<not> is_upper_char c \<and> c \<noteq> CHR '' '') s"

subsection \<open>Warnings\<close>

text \<open>
  The warnings of the scripts are printed lines that start with \<open>Warning:\<close>
  (\<open>Warning: Image not found for ...\<close> in the reorganizer,
  \<open>Warning: Could not find label ID for ...\<close> in the label updater).
\<close>

definition is_warning :: "string \<Rightarrow> bool" where
  "is_warning line = (take 8 line = ''Warning:'')"

section \<open>Example data\<close>

text \<open>
  A small dataset on which the theorems below are instantiated: a labelmap with one
  class, a train split that lists three stems of which two have an image, and a test
  split that lists one stem without an image. \<open>example_to_float\<close> is \<open>float\<close> on the
  strings of digits, with the integers for the floats.
\<close>

definition example_to_float :: "string \<Rightarrow> int option" where
  "example_to_float s = (if str_isdigit s then Some (int_of_digits s) else None)"

definition example_labelmap :: "labelmap_entry list" where
  "example_labelmap =
     [\<lparr>object_id = 0, label_id = 0, keyboard_shortcut = ''0'', object_name = ''background''\<rparr>,
      \<lparr>object_id = 1, label_id = 1, keyboard_shortcut = ''1'', object_name = ''rust_leaf''\<rparr>]"

definition example_dataset :: dataset where
  "example_dataset =
     \<lparr>ds_labelmap = Some example_labelmap,
      ds_sets = (\<lambda>name. if name = ''train.txt'' then Some [''b'', '' '', ''a '', ''zz'']
                        else if name = ''test.txt'' then Some [''missing'']
                        else None),
      ds_listing = [''a.jpg'', ''b.png''],
      ds_exists = (\<lambda>path. path = ''a.jpg'' \<or> path = ''b.png''),
      ds_image_size = (\<lambda>path. Some (100, 200)),
      ds_csv = (\<lambda>name.
        if name = ''a.csv'' then
          Some (Some [[(''#item'', Some ''0''), (''x'', Some ''5''), (''y'', Some ''5''),
                       (''width'', Some ''10''), (''height'', Some ''10''), (''label'', Some ''rust_leaf'')],
                      [(''#item'', Some ''1''), (''x'', Some ''1''), (''y'', Some ''2''),
                       (''width'', Some ''3''), (''height'', Some ''4''), (''label'', Some ''7'')]])
        else if name = ''b.csv'' then
          Some (Some [[(''#item'', Some ''0''), (''x'', Some ''0''), (''y'', Some ''0''),
                       (''width'', Some ''6''), (''height'', Some ''7''), (''label'', Some ''Rust Leaf'')]])
        else None)\<rparr>"

section \<open>Properties\<close>

subsection \<open>Floats\<close>

lemma bit_length_le: "n < 2 ^ k \<Longrightarrow> bit_length n \<le> k"
proof (induction n arbitrary: k rule: bit_length.induct)
  case (1 n)
  show ?case
  proof (cases "n = 0")
    case True
    then show ?thesis by simp
  next
    case False
    then obtain j where k: "k = Suc j" using "1.prems" by (cases k) auto
    have "n div 2 < 2 ^ j" using "1.prems" k by auto
    from "1.IH"[OF False this] show ?thesis using False k by simp
  qed
qed

lemma not_overflow: "a < 2 ^ k \<Longrightarrow> k \<le> 1024 \<Longrightarrow> \<not> overflow_threshold \<le> a"
proof -
  assume "a < 2 ^ k" "k \<le> 1024"
  moreover have "(2::nat) ^ k \<le> 2 ^ 1024"
    by (rule power_increasing) (use \<open>k \<le> 1024\<close> in simp_all)
  ultimately show ?thesis unfolding overflow_threshold_def by linarith
qed

text \<open>Every integer below \<open>2 ^ 53\<close> in magnitude is a double.\<close>

lemma float_of_int_exact: "\<bar>n\<bar> < 2 ^ 53 \<Longrightarrow> float_of_int n = Finite n"
proof -
  assume a: "\<bar>n\<bar> < 2 ^ 53"
  have b: "nat \<bar>n\<bar> < 2 ^ 53" using a by (simp add: nat_less_iff)
  hence e: "bit_length (nat \<bar>n\<bar>) - 53 = 0" using bit_length_le by fastforce
  have r: "round_half_even (nat \<bar>n\<bar>) 0 * 2 ^ 0 = nat \<bar>n\<bar>"
    by (simp add: round_half_even_def)
  have "float_of_int n = Finite (if n < 0 then - int (nat \<bar>n\<bar>) else int (nat \<bar>n\<bar>))"
    unfolding float_of_int_def Let_def e r using not_overflow[OF b] by simp
  thus ?thesis by simp
qed

text \<open>\<open>2 ^ 53 + 1\<close> lies halfway between two doubles and rounds to the even one, \<open>2 ^ 53\<close>;
  \<open>2 ^ 53 + 2\<close> is a double.\<close>

lemma float_of_int_tie: "float_of_int 9007199254740993 = Finite 9007199254740992"
proof -
  have no: "\<not> overflow_threshold \<le> 9007199254740992"
    by (rule not_overflow[where k = 54]) simp_all
  have e: "bit_length (nat \<bar>9007199254740993\<bar>) - 53 = 1"
    by simp
  have m: "round_half_even (nat \<bar>9007199254740993\<bar>) 1 * 2 ^ 1 = 9007199254740992"
    by (simp add: round_half_even_def Let_def)
  show ?thesis
    unfolding float_of_int_def Let_def e m using no by simp
qed

lemma float_of_int_even: "float_of_int 9007199254740994 = Finite 9007199254740994"
proof -
  have no: "\<not> overflow_threshold \<le> 9007199254740994"
    by (rule not_overflow[where k = 54]) simp_all
  have e: "bit_length (nat \<bar>9007199254740994\<bar>) - 53 = 1"
    by simp
  have m: "round_half_even (nat \<bar>9007199254740994\<bar>) 1 * 2 ^ 1 = 9007199254740994"
    by (simp add: round_half_even_def Let_def)
  show ?thesis
    unfolding float_of_int_def Let_def e m using no by simp
qed

subsection \<open>C2: the box conversion and its round trip\<close>

text \<open>
  C2, as stated, for every box: the far corner re-derived from the converted box as
  \<open>(x + w, y + h)\<close> is the original \<open>(xmax, ymax)\<close>. It fails where the subtraction
  rounds. For \<open>(xmin, ymin, xmax, ymax) = (1, 0, 9007199254740994, 0)\<close> all four cells are
  doubles, the width \<open>9007199254740993\<close> is not and rounds to \<open>9007199254740992\<close>, and
  \<open>x + w\<close> rounds to \<open>9007199254740992\<close> again, which is not \<open>xmax\<close>.
\<close>

theorem convert_bbox_format_round_trip_counterexample:
  "float_of_int 9007199254740994 = Finite 9007199254740994 \<and>
   convert_bbox_format 1 0 9007199254740994 0 =
     (Finite 1, Finite 0, Finite 9007199254740992, Finite 0) \<and>
   rederive_max (convert_bbox_format 1 0 9007199254740994 0) =
     (Finite 9007199254740992, Finite 0) \<and>
   \<not> float_eq (fst (rederive_max (convert_bbox_format 1 0 9007199254740994 0)))
     (float_of_int 9007199254740994)"
  by (simp add: convert_bbox_format_def rederive_max_def float_of_int_exact float_sub_def
      float_of_int_tie float_of_int_even float_eq_def)

text \<open>
  C2, amended: for every box whose four coordinates are integers of magnitude below
  \<open>2 ^ 52\<close> (every pixel coordinate is), \<open>convert_bbox_format\<close> returns
  \<open>(xmin, ymin, xmax - xmin, ymax - ymin)\<close> with nothing rounded, and \<open>(x + w, y + h)\<close>
  is \<open>(xmax, ymax)\<close> again, equal to the original under Python's \<open>==\<close>.
\<close>

theorem convert_bbox_format_round_trip:
  assumes "\<bar>xmin\<bar> < 2 ^ 52" and "\<bar>ymin\<bar> < 2 ^ 52" and "\<bar>xmax\<bar> < 2 ^ 52" and "\<bar>ymax\<bar> < 2 ^ 52"
  shows "convert_bbox_format xmin ymin xmax ymax =
           (Finite xmin, Finite ymin, Finite (xmax - xmin), Finite (ymax - ymin)) \<and>
         rederive_max (convert_bbox_format xmin ymin xmax ymax) = (Finite xmax, Finite ymax) \<and>
         float_eq (fst (rederive_max (convert_bbox_format xmin ymin xmax ymax))) (float_of_int xmax) \<and>
         float_eq (snd (rederive_max (convert_bbox_format xmin ymin xmax ymax))) (float_of_int ymax)"
proof -
  have small: "\<bar>xmin\<bar> < 2 ^ 53" "\<bar>ymin\<bar> < 2 ^ 53" "\<bar>xmax\<bar> < 2 ^ 53" "\<bar>ymax\<bar> < 2 ^ 53"
    using assms by simp_all
  have diff: "\<bar>xmax - xmin\<bar> < 2 ^ 53" "\<bar>ymax - ymin\<bar> < 2 ^ 53"
    using assms by simp_all
  have conv: "convert_bbox_format xmin ymin xmax ymax =
      (Finite xmin, Finite ymin, Finite (xmax - xmin), Finite (ymax - ymin))"
    using small diff
    by (simp add: convert_bbox_format_def float_sub_def float_of_int_exact)
  have rederived: "rederive_max (convert_bbox_format xmin ymin xmax ymax) = (Finite xmax, Finite ymax)"
    unfolding conv using small by (simp add: rederive_max_def float_of_int_exact)
  show ?thesis
    using conv rederived small by (simp add: float_eq_def float_of_int_exact)
qed

theorem convert_bbox_format_round_trip_witness:
  "convert_bbox_format 10 20 50 80 = (Finite 10, Finite 20, Finite 40, Finite 60) \<and>
   rederive_max (convert_bbox_format 10 20 50 80) = (Finite 50, Finite 80)"
proof -
  have "\<bar>10::int\<bar> < 2 ^ 52" and "\<bar>20::int\<bar> < 2 ^ 52" and "\<bar>50::int\<bar> < 2 ^ 52" and "\<bar>80::int\<bar> < 2 ^ 52"
    by simp_all
  from convert_bbox_format_round_trip [OF this]
  have "convert_bbox_format 10 20 50 80 = (Finite 10, Finite 20, Finite (50 - 10), Finite (80 - 20))"
    and "rederive_max (convert_bbox_format 10 20 50 80) = (Finite 50, Finite 80)"
    by blast+
  thus ?thesis by simp
qed

subsection \<open>Sets and dictionaries\<close>

lemma sorted_set_eq: "sorted_set xs = sorted_list_of_set (set xs)"
  by (simp add: sorted_set_def sorted_list_of_set_sort_remdups)

lemma sorted_set_props [simp]: "set (sorted_set xs) = set xs" "distinct (sorted_set xs)" "sorted (sorted_set xs)"
  by (simp_all add: sorted_set_def)

lemma sorted_set_id: "sorted xs \<Longrightarrow> distinct xs \<Longrightarrow> sorted_set xs = xs"
  by (simp add: sorted_set_def sorted_sort_id)

lemma dict_get_dict_set: "dict_get (dict_set d k v) k' = (if k' = k then Some v else dict_get d k')"
  by (induction d) (auto simp: dict_get_def)

lemma dict_get_empty: "dict_get [] k = None"
  by (simp add: dict_get_def)

subsection \<open>C3: the split files\<close>

text \<open>
  C3: whenever \<open>create_sets_files\<close> returns, for the set of train stems that
  \<open>get_image_stems\<close> collected, with \<open>n\<close> its size: \<open>val.txt\<close> holds exactly the first
  \<open>n div 5\<close> stems of the lexicographically sorted list of train stems, \<open>train.txt\<close> holds
  the remaining ones, \<open>train_val.txt\<close> holds the whole sorted list, val and train are
  disjoint and their union is train\_val. The files are a function of the stem set:
  nothing is shuffled.
\<close>

theorem create_sets_files_split:
  assumes stems: "get_image_stems image_exists train_csv = Inr train_stems"
      and run: "create_sets_files image_exists train_csv test_csv = Inr (files, sizes)"
  shows "let train_list = sorted_list_of_set (set train_stems);
             val_size = length train_list div 5
         in length train_list = card (set train_stems) \<and>
            dict_get files ''val.txt'' = Some (take val_size train_list) \<and>
            dict_get files ''train.txt'' = Some (drop val_size train_list) \<and>
            dict_get files ''train_val.txt'' = Some train_list \<and>
            set (take val_size train_list) \<inter> set (drop val_size train_list) = {} \<and>
            set (take val_size train_list) \<union> set (drop val_size train_list) = set train_list"
proof -
  define l where "l = sorted_set train_stems"
  define k where "k = length l div 5"
  have l: "sorted l" "distinct l" by (simp_all add: l_def)
  have tk: "sorted_set (take k l) = take k l"
    using l by (intro sorted_set_id) auto
  have dr: "sorted_set (drop k l) = drop k l"
    using l by (intro sorted_set_id) auto
  have "set (drop k l @ take k l) = set l"
    by (metis append_take_drop_id set_append sup_commute)
  hence "sorted_set (drop k l @ take k l) = sorted_set l"
    unfolding sorted_set_eq by simp
  hence tv: "sorted_set (drop k l @ take k l) = l"
    using l by (simp add: sorted_set_id)
  obtain test_stems where "get_image_stems image_exists test_csv = Inr test_stems"
    using run stems by (auto simp: create_sets_files_def split: sum.splits)
  with run stems have files: "files =
      dict_set (dict_set (dict_set (dict_set (dict_set (dict_set [] ''train.txt'' l)
        ''test.txt'' (sorted_set test_stems)) ''all.txt'' (sorted_set (train_stems @ test_stems)))
        ''val.txt'' (take k l)) ''train.txt'' (drop k l)) ''train_val.txt'' l"
    by (simp add: create_sets_files_def Let_def l_def[symmetric] k_def[symmetric] tk dr tv)
  have disj: "set (take k l) \<inter> set (drop k l) = {}"
    using l(2) by (metis append_take_drop_id distinct_append)
  have un: "set (take k l) \<union> set (drop k l) = set l"
    by (metis append_take_drop_id set_append)
  have card: "length l = card (set train_stems)"
    using l(2) by (metis distinct_card l_def sorted_set_props(1))
  show ?thesis
    unfolding Let_def sorted_set_eq[symmetric] l_def[symmetric] k_def[symmetric]
    using disj un card by (simp add: files dict_get_def)
qed

theorem create_sets_files_split_witness:
  "get_image_stems (\<lambda>p. p \<in> set [''a.jpg'', ''b.png'', ''c.jpg'', ''d.jpg'', ''e.jpg''])
     (map (\<lambda>n. [(''filename'', Some n)]) [''e.jpg'', ''a.jpg'', ''b.jpg'', ''c.jpg'', ''d.jpg'', ''a.jpg'', ''zz.jpg''])
     = Inr [''e'', ''a'', ''b'', ''c'', ''d'', ''a''] \<and>
   create_sets_files (\<lambda>p. p \<in> set [''a.jpg'', ''b.png'', ''c.jpg'', ''d.jpg'', ''e.jpg''])
     (map (\<lambda>n. [(''filename'', Some n)]) [''e.jpg'', ''a.jpg'', ''b.jpg'', ''c.jpg'', ''d.jpg'', ''a.jpg'', ''zz.jpg''])
     [] =
     Inr ([(''train.txt'', [''b'', ''c'', ''d'', ''e'']), (''test.txt'', []), (''all.txt'', [''a'', ''b'', ''c'', ''d'', ''e'']),
           (''val.txt'', [''a'']), (''train_val.txt'', [''a'', ''b'', ''c'', ''d'', ''e''])], (4, 1, 0)) \<and>
   (let train_list = sorted_list_of_set (set [''e'', ''a'', ''b'', ''c'', ''d'', ''a'']);
        val_size = length train_list div 5
    in length train_list = card (set [''e'', ''a'', ''b'', ''c'', ''d'', ''a'']) \<and>
       dict_get [(''train.txt'', [''b'', ''c'', ''d'', ''e'']), (''test.txt'', []), (''all.txt'', [''a'', ''b'', ''c'', ''d'', ''e'']),
           (''val.txt'', [''a'']), (''train_val.txt'', [''a'', ''b'', ''c'', ''d'', ''e''])] ''val.txt'' = Some (take val_size train_list) \<and>
       dict_get [(''train.txt'', [''b'', ''c'', ''d'', ''e'']), (''test.txt'', []), (''all.txt'', [''a'', ''b'', ''c'', ''d'', ''e'']),
           (''val.txt'', [''a'']), (''train_val.txt'', [''a'', ''b'', ''c'', ''d'', ''e''])] ''train.txt'' = Some (drop val_size train_list) \<and>
       dict_get [(''train.txt'', [''b'', ''c'', ''d'', ''e'']), (''test.txt'', []), (''all.txt'', [''a'', ''b'', ''c'', ''d'', ''e'']),
           (''val.txt'', [''a'']), (''train_val.txt'', [''a'', ''b'', ''c'', ''d'', ''e''])] ''train_val.txt'' = Some train_list \<and>
       set (take val_size train_list) \<inter> set (drop val_size train_list) = {} \<and>
       set (take val_size train_list) \<union> set (drop val_size train_list) = set train_list) \<and>
   take (length (sorted_list_of_set (set [''e'', ''a'', ''b'', ''c'', ''d'', ''a''])) div 5)
     (sorted_list_of_set (set [''e'', ''a'', ''b'', ''c'', ''d'', ''a''])) = [''a'']"
proof -
  have h1: "get_image_stems (\<lambda>p. p \<in> set [''a.jpg'', ''b.png'', ''c.jpg'', ''d.jpg'', ''e.jpg''])
     (map (\<lambda>n. [(''filename'', Some n)]) [''e.jpg'', ''a.jpg'', ''b.jpg'', ''c.jpg'', ''d.jpg'', ''a.jpg'', ''zz.jpg''])
     = Inr [''e'', ''a'', ''b'', ''c'', ''d'', ''a'']"
    by code_simp
  have h2: "create_sets_files (\<lambda>p. p \<in> set [''a.jpg'', ''b.png'', ''c.jpg'', ''d.jpg'', ''e.jpg''])
     (map (\<lambda>n. [(''filename'', Some n)]) [''e.jpg'', ''a.jpg'', ''b.jpg'', ''c.jpg'', ''d.jpg'', ''a.jpg'', ''zz.jpg''])
     [] =
     Inr ([(''train.txt'', [''b'', ''c'', ''d'', ''e'']), (''test.txt'', []), (''all.txt'', [''a'', ''b'', ''c'', ''d'', ''e'']),
           (''val.txt'', [''a'']), (''train_val.txt'', [''a'', ''b'', ''c'', ''d'', ''e''])], (4, 1, 0))"
    by code_simp
  have h3: "take (length (sorted_list_of_set (set [''e'', ''a'', ''b'', ''c'', ''d'', ''a''])) div 5)
     (sorted_list_of_set (set [''e'', ''a'', ''b'', ''c'', ''d'', ''a''])) = [''a'']"
    by code_simp
  from create_sets_files_split [OF h1 h2] h1 h2 h3 show ?thesis
    by blast
qed

subsection \<open>C4: the labelmap and the exported categories\<close>

lemma create_labelmap_loop_fst:
  "fst (create_labelmap_loop (labelmap, class_to_id) idx classes) =
     labelmap @ map (\<lambda>i. \<lparr>object_id = idx + int i, label_id = idx + int i,
                          keyboard_shortcut = str_int (idx + int i),
                          object_name = str_replace CHR '' '' CHR ''_'' (str_lower (classes ! i))\<rparr>)
                [0..<length classes]"
proof (induction classes arbitrary: labelmap class_to_id idx)
  case Nil
  then show ?case by simp
next
  case (Cons c classes)
  show ?case
    by (simp add: Cons.IH map_upt_Suc add.assoc del: upt_Suc)
qed

lemma categories_loop_eq:
  "categories_loop categories labelmap =
     categories @ map (\<lambda>item. \<lparr>category_id = label_id item, category_name = object_name item,
                                 supercategory = ''plant_disease''\<rparr>)
                    (filter (\<lambda>item. object_id item > 0) labelmap)"
  by (induction labelmap arbitrary: categories) simp_all

lemma collect_classes_set:
  "collect_classes acc rows = Inr classes \<Longrightarrow>
   set classes = set acc \<union> {c. \<exists>row \<in> set rows. row_get_strip row ''class'' = Inr c \<and> c \<noteq> [] \<and> \<not> str_isdigit c}"
proof (induction rows arbitrary: acc)
  case Nil
  then show ?case by simp
next
  case (Cons row rows)
  then show ?case
    by (auto split: sum.splits if_splits)
qed

lemma collect_all_classes_set:
  "collect_all_classes acc csv_files = Inr classes \<Longrightarrow>
   set classes = set acc \<union> {c. \<exists>csv_file \<in> set csv_files. \<exists>row \<in> set csv_file.
       row_get_strip row ''class'' = Inr c \<and> c \<noteq> [] \<and> \<not> str_isdigit c}"
proof (induction csv_files arbitrary: acc)
  case Nil
  then show ?case by simp
next
  case (Cons f fs)
  then obtain mid where m: "collect_classes acc f = Inr mid" "collect_all_classes mid fs = Inr classes"
    by (auto split: sum.splits)
  from Cons.IH[OF m(2)] collect_classes_set[OF m(1)] show ?case
    by auto
qed



subsection \<open>C7: image ids, annotation ids and areas\<close>

lemma boxes_loop_eq:
  "boxes_loop (annotations, k) i boxes =
     (annotations @ map (\<lambda>j. \<lparr>ann_id = k + int j, ann_image_id = i,
            ann_category_id = box_category_id (boxes ! j),
            ann_bbox = [box_x (boxes ! j), box_y (boxes ! j), box_width (boxes ! j), box_height (boxes ! j)],
            ann_area = box_area (boxes ! j), ann_iscrowd = 0\<rparr>) [0..<length boxes],
      k + int (length boxes))"
proof (induction boxes arbitrary: annotations k)
  case Nil
  then show ?case by simp
next
  case (Cons b boxes)
  show ?case
    by (simp add: Cons.IH map_upt_Suc add.assoc del: upt_Suc)
qed

lemma parse_row_area:
  "parse_row to_float class_to_id row = Inr (Some b) \<Longrightarrow> box_area b = box_width b * box_height b"
  by (auto simp: parse_row_def split: sum.splits option.splits)

lemma parse_rows_area:
  "parse_rows to_float class_to_id acc rows = Inr boxes \<Longrightarrow>
   list_all (\<lambda>b. box_area b = box_width b * box_height b) acc \<Longrightarrow>
   list_all (\<lambda>b. box_area b = box_width b * box_height b) boxes"
proof (induction rows arbitrary: acc)
  case Nil
  then show ?case by simp
next
  case (Cons row rows)
  show ?case
  proof (cases "parse_row to_float class_to_id row")
    case (Inl e)
    with Cons.prems Cons.IH[of acc] show ?thesis
      by (auto split: if_splits)
  next
    case (Inr r)
    show ?thesis
    proof (cases r)
      case None
      with Inr Cons.prems Cons.IH[of acc] show ?thesis by auto
    next
      case (Some b)
      with Inr Cons.prems Cons.IH[of "acc @ [b]"] parse_row_area[of to_float class_to_id row b]
      show ?thesis by auto
    qed
  qed
qed

lemma parse_csv_boxes_area:
  "parse_csv_boxes to_float csv_path class_to_id = Inr boxes \<Longrightarrow>
   list_all (\<lambda>b. box_area b = box_width b * box_height b) boxes"
  using parse_rows_area[of to_float class_to_id "[]" _ boxes]
  by (auto simp: parse_csv_boxes_def split: option.splits)

lemma upto_append_count:
  "[1..int a] @ map (\<lambda>j. 1 + int a + int j) [0..<n] = [1..int (a + n)]"
proof (induction n)
  case 0
  then show ?case by simp
next
  case (Suc n)
  have "[1..int (a + Suc n)] = [1..int (a + n)] @ [int (a + n) + 1]"
    using upto_rec2[of 1 "int (a + Suc n)"] by (simp add: add.commute)
  with Suc show ?case by (simp add: add.assoc add.commute)
qed

lemma upto_snoc_count: "[1..int a] @ [1 + int a] = [1..int (Suc a)]"
  using upto_append_count[of a 1] by simp

lemma stems_loop_invariant:
  assumes "stems_loop to_float ds category class_to_id (images, annotations, ic, ac) stems =
             Inr (images', annotations', ic', ac')"
    and "map image_id images = [1..int (length images)]"
    and "ic = 1 + int (length images)"
    and "map ann_id annotations = [1..int (length annotations)]"
    and "ac = 1 + int (length annotations)"
    and "list_all (\<lambda>a. length (ann_bbox a) = 4 \<and> ann_area a = ann_bbox a ! 2 * ann_bbox a ! 3) annotations"
  shows "map image_id images' = [1..int (length images')] \<and>
         map ann_id annotations' = [1..int (length annotations')] \<and>
         list_all (\<lambda>a. length (ann_bbox a) = 4 \<and> ann_area a = ann_bbox a ! 2 * ann_bbox a ! 3) annotations' \<and>
         map file_name images' = map file_name images @
           map (\<lambda>img_name. category @ ''/images/'' @ img_name)
             (List.map_filter (\<lambda>stem. find_image (ds_exists ds) stem image_extensions) stems)"
  using assms
proof (induction stems arbitrary: images annotations ic ac)
  case Nil
  then show ?case by simp
next
  case (Cons stem stems)
  show ?case
  proof (cases "find_image (ds_exists ds) stem image_extensions")
    case None
    with Cons.prems(1) have
      "stems_loop to_float ds category class_to_id (images, annotations, ic, ac) stems =
         Inr (images', annotations', ic', ac')"
      by simp
    from Cons.IH[OF this Cons.prems(2-6)] None show ?thesis
      by simp
  next
    case (Some img_name)
    with Cons.prems(1) obtain width height boxes where
      sz: "ds_image_size ds img_name = Some (width, height)" and
      bx: "parse_csv_boxes to_float (ds_csv ds (stem @ ''.csv'')) class_to_id = Inr boxes"
      by (auto split: option.splits sum.splits)
    define img where "img = \<lparr>image_id = ic, file_name = category @ ''/images/'' @ img_name,
                  image_width = width, image_height = height\<rparr>"
    define anns where "anns = annotations @ map (\<lambda>j. \<lparr>ann_id = ac + int j, ann_image_id = ic,
            ann_category_id = box_category_id (boxes ! j),
            ann_bbox = [box_x (boxes ! j), box_y (boxes ! j), box_width (boxes ! j), box_height (boxes ! j)],
            ann_area = box_area (boxes ! j), ann_iscrowd = 0\<rparr>) [0..<length boxes]"
    have step: "stems_loop to_float ds category class_to_id
        (images @ [img], anns, ic + 1, ac + int (length boxes)) stems =
         Inr (images', annotations', ic', ac')"
      using Cons.prems(1) Some sz bx by (simp add: boxes_loop_eq img_def anns_def)
    have i1: "map image_id (images @ [img]) = [1..int (length (images @ [img]))]"
      using Cons.prems(2,3) upto_snoc_count[of "length images"] by (simp add: img_def)
    have i2: "ic + 1 = 1 + int (length (images @ [img]))"
      using Cons.prems(3) by simp
    have a1: "map ann_id anns = [1..int (length anns)]"
      using Cons.prems(4,5) upto_append_count[of "length annotations" "length boxes"]
      by (simp add: anns_def comp_def)
    have a2: "ac + int (length boxes) = 1 + int (length anns)"
      using Cons.prems(5) by (simp add: anns_def)
    have ar: "list_all (\<lambda>b. box_area b = box_width b * box_height b) boxes"
      by (rule parse_csv_boxes_area[OF bx])
    have a3: "list_all (\<lambda>a. length (ann_bbox a) = 4 \<and> ann_area a = ann_bbox a ! 2 * ann_bbox a ! 3) anns"
      using Cons.prems(6) ar by (auto simp: anns_def list_all_iff)
    from Cons.IH[OF step i1 i2 a1 a2 a3] Some show ?thesis
      by (simp add: img_def)
  qed
qed

text \<open>
  C7: whenever the exporter returns for a split, the image ids are \<open>1, 2, ...\<close> in the
  order of the images, and the images are those of the lexicographically sorted stems
  that have an image file, in that order (a stem without one takes no id); the
  annotation ids are \<open>1, 2, ...\<close> over the whole split; and every annotation's \<open>area\<close> is
  the product of the width and the height of its \<open>bbox\<close>.
\<close>

theorem collect_annotations_ids:
  assumes "collect_annotations_for_split to_float ds split_name category =
             Inr (images, annotations, categories)"
  shows "map image_id images = [1..int (length images)] \<and>
         map file_name images =
           map (\<lambda>img_name. category @ ''/images/'' @ img_name)
             (List.map_filter (\<lambda>stem. find_image (ds_exists ds) stem image_extensions)
                (sorted_list_of_set (set (image_stems ds split_name)))) \<and>
         map ann_id annotations = [1..int (length annotations)] \<and>
         list_all (\<lambda>a. length (ann_bbox a) = 4 \<and> ann_area a = ann_bbox a ! 2 * ann_bbox a ! 3)
           annotations"
proof -
  from assms obtain labelmap ic ac where
    run: "stems_loop to_float ds category (load_labelmap labelmap) ([], [], 1, 1)
            (sorted_set (image_stems ds split_name)) = Inr (images, annotations, ic, ac)"
    by (auto simp: collect_annotations_for_split_def Let_def split: option.splits sum.splits)
  from stems_loop_invariant[OF run] show ?thesis
    by (simp add: sorted_set_eq)
qed

theorem collect_annotations_ids_witness:
  "collect_annotations_for_split example_to_float example_dataset ''train'' ''plant_diseases'' =
     Inr ([\<lparr>image_id = 1, file_name = ''plant_diseases/images/a.jpg'', image_width = 100, image_height = 200\<rparr>,
           \<lparr>image_id = 2, file_name = ''plant_diseases/images/b.png'', image_width = 100, image_height = 200\<rparr>],
          [\<lparr>ann_id = 1, ann_image_id = 1, ann_category_id = 1, ann_bbox = [5, 5, 10, 10], ann_area = 100, ann_iscrowd = 0\<rparr>,
           \<lparr>ann_id = 2, ann_image_id = 1, ann_category_id = 7, ann_bbox = [1, 2, 3, 4], ann_area = 12, ann_iscrowd = 0\<rparr>,
           \<lparr>ann_id = 3, ann_image_id = 2, ann_category_id = 1, ann_bbox = [0, 0, 6, 7], ann_area = 42, ann_iscrowd = 0\<rparr>],
          [\<lparr>category_id = 1, category_name = ''rust_leaf'', supercategory = ''plant_disease''\<rparr>]) \<and>
   map ann_id
     [\<lparr>ann_id = 1, ann_image_id = 1, ann_category_id = 1, ann_bbox = [5, 5, 10, 10], ann_area = (100::int), ann_iscrowd = 0\<rparr>,
      \<lparr>ann_id = 2, ann_image_id = 1, ann_category_id = 7, ann_bbox = [1, 2, 3, 4], ann_area = 12, ann_iscrowd = 0\<rparr>,
      \<lparr>ann_id = 3, ann_image_id = 2, ann_category_id = 1, ann_bbox = [0, 0, 6, 7], ann_area = 42, ann_iscrowd = 0\<rparr>]
     = [1..3]"
proof -
  have run: "collect_annotations_for_split example_to_float example_dataset ''train'' ''plant_diseases'' =
     Inr ([\<lparr>image_id = 1, file_name = ''plant_diseases/images/a.jpg'', image_width = 100, image_height = 200\<rparr>,
           \<lparr>image_id = 2, file_name = ''plant_diseases/images/b.png'', image_width = 100, image_height = 200\<rparr>],
          [\<lparr>ann_id = 1, ann_image_id = 1, ann_category_id = 1, ann_bbox = [5, 5, 10, 10], ann_area = 100, ann_iscrowd = 0\<rparr>,
           \<lparr>ann_id = 2, ann_image_id = 1, ann_category_id = 7, ann_bbox = [1, 2, 3, 4], ann_area = 12, ann_iscrowd = 0\<rparr>,
           \<lparr>ann_id = 3, ann_image_id = 2, ann_category_id = 1, ann_bbox = [0, 0, 6, 7], ann_area = 42, ann_iscrowd = 0\<rparr>],
          [\<lparr>category_id = 1, category_name = ''rust_leaf'', supercategory = ''plant_disease''\<rparr>])"
    by code_simp
  from collect_annotations_ids [OF run] run show ?thesis
    by simp
qed

subsection \<open>C8: a split whose stems have no image\<close>

lemma find_image_None: "find_image image_exists stem exts = None \<longleftrightarrow> (\<forall>ext \<in> set exts. \<not> image_exists (stem @ ext))"
  by (induction exts) auto

lemma stems_loop_no_images:
  "\<forall>stem \<in> set stems. find_image (ds_exists ds) stem image_extensions = None \<Longrightarrow>
   stems_loop to_float ds category class_to_id acc stems = Inr acc"
proof (induction stems)
  case Nil
  then show ?case by simp
next
  case (Cons stem stems)
  then show ?case by (cases acc) auto
qed

lemma str_int_0: "str_int 0 = ''0''"
  by code_simp

text \<open>
  C8, as stated, has the exporter log a warning for the missing images. It prints
  nothing for them: on the example dataset's test split, whose only stem has no image
  under any extension, the run returns, writes a document with no images and no
  annotations, and the only line printed is the summary, which is no warning.
\<close>

theorem missing_images_warning_counterexample:
  "read_split_list (ds_sets example_dataset ''test.txt'') = [''missing''] \<and>
   find_image (ds_exists example_dataset) ''missing'' image_extensions = None \<and>
   convert example_to_float example_dataset ''out'' ''plant_diseases'' [''test''] =
     Inr ([(''out/plant_diseases_instances_test.json'',
            build_coco_dict [] []
              [\<lparr>category_id = 1, category_name = ''rust_leaf'', supercategory = ''plant_disease''\<rparr>]
              ''PlantDoc plant_diseases test split'')],
          [''Generated out/plant_diseases_instances_test.json: 0 images, 0 annotations, 1 categories'']) \<and>
   \<not> is_warning ''Generated out/plant_diseases_instances_test.json: 0 images, 0 annotations, 1 categories''"
  by code_simp

text \<open>
  C8, amended: when the labelmap loads, the split file has a non-blank line and no stem
  it lists has an image file under \<open>.jpg\<close>, \<open>.jpeg\<close> or \<open>.png\<close>, the exporter returns
  without an exception, \<open>images\<close> and \<open>annotations\<close> are empty, the document written for
  the split holds the categories only, and the one line printed is the summary
  \<open>Generated ...: 0 images, 0 annotations, N categories\<close>; no warning is printed.
\<close>

theorem missing_images_give_empty_document:
  assumes "ds_labelmap ds = Some labelmap"
    and "read_split_list (ds_sets ds (split_name @ ''.txt'')) \<noteq> []"
    and "\<forall>stem \<in> set (read_split_list (ds_sets ds (split_name @ ''.txt''))).
           \<forall>ext \<in> set image_extensions. \<not> ds_exists ds (stem @ ext)"
  shows "collect_annotations_for_split to_float ds split_name category =
           Inr ([], [], categories_loop [] labelmap) \<and>
         convert to_float ds out_dir category [split_name] =
           Inr ([(out_dir @ ''/'' @ category @ ''_instances_'' @ split_name @ ''.json'',
                  build_coco_dict [] [] (categories_loop [] labelmap)
                    (''PlantDoc '' @ category @ '' '' @ split_name @ '' split''))],
                [''Generated '' @ out_dir @ ''/'' @ category @ ''_instances_'' @ split_name @ ''.json'' @
                 '': 0 images, 0 annotations, '' @
                 str_int (int (length (categories_loop [] labelmap))) @ '' categories'']) \<and>
         \<not> is_warning (''Generated '' @ out_dir @ ''/'' @ category @ ''_instances_'' @ split_name @ ''.json'' @
                 '': 0 images, 0 annotations, '' @
                 str_int (int (length (categories_loop [] labelmap))) @ '' categories'')"
proof -
  have stems: "image_stems ds split_name = read_split_list (ds_sets ds (split_name @ ''.txt''))"
    using assms(2) by (simp add: image_stems_def Let_def)
  have "\<forall>stem \<in> set (sorted_set (image_stems ds split_name)).
          find_image (ds_exists ds) stem image_extensions = None"
    using assms(3) by (simp add: stems find_image_None)
  hence loop: "stems_loop to_float ds category (load_labelmap labelmap) ([], [], 1, 1)
          (sorted_set (image_stems ds split_name)) = Inr ([], [], 1, 1)"
    by (rule stems_loop_no_images)
  have collect: "collect_annotations_for_split to_float ds split_name category =
           Inr ([], [], categories_loop [] labelmap)"
    using assms(1) loop by (simp add: collect_annotations_for_split_def Let_def)
  have conv: "convert to_float ds out_dir category [split_name] =
           Inr ([(out_dir @ ''/'' @ category @ ''_instances_'' @ split_name @ ''.json'',
                  build_coco_dict [] [] (categories_loop [] labelmap)
                    (''PlantDoc '' @ category @ '' '' @ split_name @ '' split''))],
                [''Generated '' @ out_dir @ ''/'' @ category @ ''_instances_'' @ split_name @ ''.json'' @
                 '': 0 images, 0 annotations, '' @
                 str_int (int (length (categories_loop [] labelmap))) @ '' categories''])"
    by (simp add: convert_def collect Let_def str_int_0)
  have "\<not> is_warning (''Generated '' @ rest)" for rest
    by (simp add: is_warning_def)
  with collect conv show ?thesis by simp
qed

theorem missing_images_give_empty_document_witness:
  "collect_annotations_for_split example_to_float example_dataset ''test'' ''plant_diseases'' =
     Inr ([], [], categories_loop [] example_labelmap)"
proof -
  have h1: "ds_labelmap example_dataset = Some example_labelmap"
    by (simp add: example_dataset_def)
  have h2: "read_split_list (ds_sets example_dataset (''test'' @ ''.txt'')) \<noteq> []"
    by code_simp
  have h3: "\<forall>stem \<in> set (read_split_list (ds_sets example_dataset (''test'' @ ''.txt''))).
           \<forall>ext \<in> set image_extensions. \<not> ds_exists example_dataset (stem @ ext)"
    by code_simp
  from missing_images_give_empty_document [OF h1 h2 h3] show ?thesis
    by blast
qed

subsection \<open>C9: where the stems come from\<close>



subsection \<open>C1: the order of the resolution steps\<close>

lemma scan_items_find:
  "scan_items class_to_id label =
     map_option snd (find (\<lambda>(key, val). str_lower key = str_lower label) class_to_id)"
  by (induction class_to_id) auto

text \<open>
  C1, as stated, has both resolvers follow the spec's four steps. The updater has no
  numeric step and no normalizing step: against the table of the example labelmap the
  label \<open>1\<close> is unresolved where the four steps give id 1, and against the table for
  \<open>bell_pepper_leaf\<close> the label \<open>bell pepper_leaf\<close> is unresolved where step (3) gives id
  1. The exporter has no exact-match step: against a table in which \<open>A\<close> is a variant of
  id 2 and \<open>a\<close> one of id 1, the label \<open>A\<close> gets id 1 from the normalized match where
  step (2) gives id 2.
\<close>

theorem resolver_steps_counterexample:
  "label_id_of_class_name (build_class_to_id remdups example_labelmap []) ''1'' = None \<and>
   spec_resolve (build_class_to_id remdups example_labelmap []) ''1'' = Some 1 \<and>
   label_id_of_class_name
     (build_class_to_id remdups
        [background_entry,
         \<lparr>object_id = 1, label_id = 1, keyboard_shortcut = ''1'', object_name = ''bell_pepper_leaf''\<rparr>] [])
     ''bell pepper_leaf'' = None \<and>
   spec_resolve
     (build_class_to_id remdups
        [background_entry,
         \<lparr>object_id = 1, label_id = 1, keyboard_shortcut = ''1'', object_name = ''bell_pepper_leaf''\<rparr>] [])
     ''bell pepper_leaf'' = Some 1 \<and>
   category_id_of_label
     (load_labelmap
        [\<lparr>object_id = 1, label_id = 1, keyboard_shortcut = ''1'', object_name = ''a''\<rparr>,
         \<lparr>object_id = 2, label_id = 2, keyboard_shortcut = ''2'', object_name = ''A''\<rparr>])
     ''A'' = Inr (Some 1) \<and>
   spec_resolve
     (load_labelmap
        [\<lparr>object_id = 1, label_id = 1, keyboard_shortcut = ''1'', object_name = ''a''\<rparr>,
         \<lparr>object_id = 2, label_id = 2, keyboard_shortcut = ''2'', object_name = ''A''\<rparr>])
     ''A'' = Some 2"
  by code_simp

text \<open>
  C1, amended: the exporter's resolver takes a numeric label as its own id (\<open>int\<close>
  raises \<open>ValueError\<close> on one of more than 4300 digits, and nothing else is tried), else the
  table's entry for the lowercased label with spaces replaced by underscores, else the
  value of the first variant, in the order of the table, equal to the label when both
  are lowercased. The updater's resolver takes the table's entry for the label itself,
  else the value of that first variant. In each, a later step is reached only when the
  earlier ones found nothing. The exporter agrees with the spec's four steps on every
  label that is numeric, of at most 4300 digits, or is not itself a variant; the updater
  agrees with them on every label that is not numeric and either is a variant or has no
  normalized match.
\<close>

theorem resolver_steps:
  "category_id_of_label class_to_id label =
     (if str_isdigit label then
        (if 4300 < length label then Inl ValueError else Inr (Some (int_of_digits label)))
      else Inr (case dict_get class_to_id (str_replace CHR '' '' CHR ''_'' (str_lower label)) of
        Some found_id \<Rightarrow> Some found_id
      | None \<Rightarrow>
          map_option snd (find (\<lambda>(variant, found_id). str_lower variant = str_lower label) class_to_id))) \<and>
   label_id_of_class_name class_to_id label =
     (case dict_get class_to_id label of
        Some found_id \<Rightarrow> Some found_id
      | None \<Rightarrow>
          map_option snd (find (\<lambda>(variant, found_id). str_lower variant = str_lower label) class_to_id)) \<and>
   ((str_isdigit label \<longrightarrow> length label \<le> 4300) \<and>
    (str_isdigit label \<or> dict_get class_to_id label = None) \<longrightarrow>
      category_id_of_label class_to_id label = Inr (spec_resolve class_to_id label)) \<and>
   (\<not> str_isdigit label \<and>
    (dict_get class_to_id label \<noteq> None \<or>
     dict_get class_to_id (str_replace CHR '' '' CHR ''_'' (str_lower label)) = None) \<longrightarrow>
      label_id_of_class_name class_to_id label = spec_resolve class_to_id label)"
  by (auto simp: category_id_of_label_def label_id_of_class_name_def spec_resolve_def
      str_to_int_def int_max_str_digits_def scan_items_find Let_def split: option.splits)

theorem resolver_steps_witness:
  "category_id_of_label (load_labelmap example_labelmap) ''7'' =
     Inr (spec_resolve (load_labelmap example_labelmap) ''7'') \<and>
   category_id_of_label (load_labelmap example_labelmap) ''7'' = Inr (Some 7) \<and>
   label_id_of_class_name (build_class_to_id remdups example_labelmap []) ''Rust Leaf'' =
     spec_resolve (build_class_to_id remdups example_labelmap []) ''Rust Leaf'' \<and>
   label_id_of_class_name (build_class_to_id remdups example_labelmap []) ''Rust Leaf'' = Some 1"
proof -
  have d: "str_isdigit ''7''" "length ''7'' \<le> 4300"
    by code_simp+
  have k: "\<not> str_isdigit ''Rust Leaf''"
    "dict_get (build_class_to_id remdups example_labelmap []) ''Rust Leaf'' \<noteq> None"
    by code_simp+
  have v: "category_id_of_label (load_labelmap example_labelmap) ''7'' = Inr (Some 7)"
    "label_id_of_class_name (build_class_to_id remdups example_labelmap []) ''Rust Leaf'' = Some 1"
    by code_simp+
  from resolver_steps [of "load_labelmap example_labelmap" "''7''"] d
  have a: "category_id_of_label (load_labelmap example_labelmap) ''7'' =
     Inr (spec_resolve (load_labelmap example_labelmap) ''7'')"
    by blast
  from resolver_steps [of "build_class_to_id remdups example_labelmap []" "''Rust Leaf''"] k
  have b: "label_id_of_class_name (build_class_to_id remdups example_labelmap []) ''Rust Leaf'' =
     spec_resolve (build_class_to_id remdups example_labelmap []) ''Rust Leaf''"
    by blast
  from a b v show ?thesis by blast
qed

subsection \<open>Numeric strings\<close>

lemma of_char_lower_char:
  "(of_char (lower_char c) :: nat) = (if is_upper_char c then of_char c + 32 else of_char c)"
  by (simp add: lower_char_def is_upper_char_def)

lemma of_char_upper_char:
  "(of_char (upper_char c) :: nat) = (if is_lower_char c then of_char c - 32 else of_char c)"
proof (cases "is_lower_char c")
  case True
  hence "(of_char c :: nat) - 32 < 256" unfolding is_lower_char_def by linarith
  with True show ?thesis by (simp add: upper_char_def)
next
  case False
  then show ?thesis by (simp add: upper_char_def)
qed

lemma is_digit_lower_char [simp]: "is_digit_char (lower_char c) = is_digit_char c"
  by (auto simp: is_digit_char_def of_char_lower_char is_upper_char_def)

lemma is_digit_upper_char [simp]: "is_digit_char (upper_char c) = is_digit_char c"
  by (auto simp: is_digit_char_def of_char_upper_char is_lower_char_def)

lemma is_digit_not_space: "is_digit_char c \<Longrightarrow> \<not> is_space_char c"
  by (auto simp: is_digit_char_def is_space_char_def)

lemma str_isdigit_lower [simp]: "str_isdigit (str_lower s) = str_isdigit s"
  by (simp add: str_isdigit_def str_lower_def list_all_iff)

lemma list_all_digit_title_from: "list_all is_digit_char (title_from b s) = list_all is_digit_char s"
  by (induction s arbitrary: b) simp_all

lemma str_isdigit_title [simp]: "str_isdigit (str_title s) = str_isdigit s"
proof -
  have "title_from b s = [] \<longleftrightarrow> s = []" for b by (cases s) simp_all
  thus ?thesis by (simp add: str_isdigit_def str_title_def list_all_digit_title_from)
qed

lemma str_isdigit_capitalize [simp]: "str_isdigit (str_capitalize s) = str_isdigit s"
  by (cases s) (simp_all add: str_isdigit_def str_capitalize_def list_all_iff)

lemma is_digit_underscore [simp]: "\<not> is_digit_char CHR ''_''" "\<not> is_digit_char CHR '' ''"
  by (simp_all add: is_digit_char_def)

lemma str_isdigit_replace_us [simp]: "str_isdigit (str_replace CHR ''_'' CHR '' '' s) = str_isdigit s"
proof -
  have "is_digit_char (if c = CHR ''_'' then CHR '' '' else c) = is_digit_char c" for c
    by simp
  hence "list_all is_digit_char (map (\<lambda>c. if c = CHR ''_'' then CHR '' '' else c) s) =
         list_all is_digit_char s"
    by (induction s) simp_all
  thus ?thesis by (simp add: str_isdigit_def str_replace_def)
qed

lemma str_isdigit_append_leaf [simp]: "\<not> str_isdigit (s @ '' leaf'')"
  by (simp add: str_isdigit_def is_digit_char_def)

lemma variations_digit: "var \<in> set (variations obj_name) \<Longrightarrow> str_isdigit var \<Longrightarrow> str_isdigit obj_name"
  by (auto simp: variations_def Let_def split: if_splits)

lemma str_strip_digits: "str_isdigit s \<Longrightarrow> str_strip s = s"
proof -
  assume "str_isdigit s"
  hence all: "\<forall>c \<in> set s. \<not> is_space_char c"
    by (auto simp: str_isdigit_def list_all_iff is_digit_not_space)
  hence "dropWhile is_space_char s = s"
    by (cases s) auto
  moreover have "dropWhile is_space_char (rev s) = rev s"
    using all by (cases "rev s") auto
  ultimately show ?thesis by (simp add: str_strip_def)
qed

lemma str_nat_digits: "list_all is_digit_char (str_nat n) \<and> str_nat n \<noteq> []"
proof (induction n rule: str_nat.induct)
  case (1 n)
  have d: "is_digit_char (char_of (48 + k))" if "k < 10" for k :: nat
    using that by (simp add: is_digit_char_def)
  show ?case
  proof (cases "n < 10")
    case True
    then show ?thesis using d[of n] by (subst str_nat.simps) simp
  next
    case False
    with "1.IH" d[of "n mod 10"] show ?thesis
      by (subst (1 2) str_nat.simps) simp
  qed
qed

lemma str_isdigit_str_int: "0 \<le> v \<Longrightarrow> str_isdigit (str_int v)"
  using str_nat_digits[of "nat v"] by (simp add: str_isdigit_def str_int_def)

subsection \<open>C6: the updater on numeric labels, and run twice\<close>

lemma set_dict_set: "set (dict_set d k v) \<subseteq> insert (k, v) (set d)"
  by (induction d) (auto split: if_splits)

lemma dict_get_Some_mem: "dict_get d k = Some v \<Longrightarrow> (k, v) \<in> set d"
  by (simp add: dict_get_def map_of_SomeD)

lemma dict_get_None_key: "dict_get d k = None \<longleftrightarrow> k \<notin> fst ` set d"
  by (simp add: dict_get_def map_of_eq_None_iff)

lemma scan_items_Some: "scan_items d l = Some v \<Longrightarrow> \<exists>k. (k, v) \<in> set d \<and> str_lower k = str_lower l"
  by (induction d) (auto split: if_splits)

lemma set_variations_good:
  "\<forall>(k, v) \<in> set d. \<not> str_isdigit k \<and> 0 \<le> v \<Longrightarrow>
   \<forall>var \<in> set vars. \<not> str_isdigit var \<Longrightarrow> 0 \<le> label \<Longrightarrow>
   \<forall>(k, v) \<in> set (set_variations d vars label). \<not> str_isdigit k \<and> 0 \<le> v"
proof (induction vars arbitrary: d)
  case Nil
  then show ?case by simp
next
  case (Cons var vars)
  have "\<forall>(k, v) \<in> set (dict_set d var label). \<not> str_isdigit k \<and> 0 \<le> v"
    using Cons.prems set_dict_set[of d var label] by auto
  from Cons.IH[OF this] Cons.prems show ?case by simp
qed

lemma variations_loop_good:
  "\<forall>(k, v) \<in> set d. \<not> str_isdigit k \<and> 0 \<le> v \<Longrightarrow>
   list_all (\<lambda>item. 0 < object_id item \<longrightarrow> \<not> str_isdigit (object_name item) \<and> 0 \<le> label_id item) labelmap \<Longrightarrow>
   \<forall>(k, v) \<in> set (variations_loop d labelmap). \<not> str_isdigit k \<and> 0 \<le> v"
proof (induction labelmap arbitrary: d)
  case Nil
  then show ?case by simp
next
  case (Cons item labelmap)
  show ?case
  proof (cases "0 < object_id item")
    case True
    with Cons.prems(2) have n: "\<not> str_isdigit (object_name item)" and l: "0 \<le> label_id item"
      by simp_all
    have "\<forall>var \<in> set (variations (object_name item)). \<not> str_isdigit var"
      using n variations_digit by blast
    from set_variations_good[OF Cons.prems(1) this l]
    have "\<forall>(k, v) \<in> set (set_variations d (variations (object_name item)) (label_id item)).
            \<not> str_isdigit k \<and> 0 \<le> v" .
    from Cons.IH[OF this] Cons.prems(2) True show ?thesis by simp
  next
    case False
    with Cons.IH[OF Cons.prems(1)] Cons.prems(2) show ?thesis by simp
  qed
qed

lemma first_named_nonneg:
  "first_named labelmap n = Some v \<Longrightarrow>
   list_all (\<lambda>item. 0 < object_id item \<longrightarrow> \<not> str_isdigit (object_name item) \<and> 0 \<le> label_id item) labelmap \<Longrightarrow>
   0 \<le> v"
  by (induction labelmap) (auto split: if_splits)

lemma original_classes_loop_good:
  "\<forall>(k, v) \<in> set d. \<not> str_isdigit k \<and> 0 \<le> v \<Longrightarrow>
   list_all (\<lambda>item. 0 < object_id item \<longrightarrow> \<not> str_isdigit (object_name item) \<and> 0 \<le> label_id item) labelmap \<Longrightarrow>
   \<forall>c \<in> set classes. \<not> str_isdigit c \<Longrightarrow>
   \<forall>(k, v) \<in> set (original_classes_loop labelmap d classes). \<not> str_isdigit k \<and> 0 \<le> v"
proof (induction classes arbitrary: d)
  case Nil
  then show ?case by simp
next
  case (Cons c classes)
  define d1 where "d1 = (case first_named labelmap (str_replace CHR '' '' CHR ''_'' (str_lower c)) of
               Some label \<Rightarrow> dict_set d c label | None \<Rightarrow> d)"
  define d2 where "d2 = (if dict_get d1 c = None then
               (case scan_items d1 c of Some val \<Rightarrow> dict_set d1 c val | None \<Rightarrow> d1)
             else d1)"
  have c: "\<not> str_isdigit c" using Cons.prems(3) by simp
  have g1: "\<forall>(k, v) \<in> set d1. \<not> str_isdigit k \<and> 0 \<le> v"
  proof (cases "first_named labelmap (str_replace CHR '' '' CHR ''_'' (str_lower c))")
    case None
    then show ?thesis using Cons.prems(1) by (simp add: d1_def)
  next
    case (Some label)
    hence "0 \<le> label" using first_named_nonneg Cons.prems(2) by blast
    with Some c Cons.prems(1) set_dict_set[of d c label] show ?thesis
      by (auto simp: d1_def)
  qed
  have g2: "\<forall>(k, v) \<in> set d2. \<not> str_isdigit k \<and> 0 \<le> v"
  proof (cases "dict_get d1 c = None \<and> scan_items d1 c \<noteq> None")
    case True
    then obtain val where s: "scan_items d1 c = Some val" by auto
    then obtain k where "(k, val) \<in> set d1" using scan_items_Some by blast
    hence "0 \<le> val" using g1 by auto
    with True s c g1 set_dict_set[of d1 c val] show ?thesis
      by (auto simp: d2_def)
  next
    case False
    then show ?thesis using g1 by (auto simp: d2_def)
  qed
  have "original_classes_loop labelmap d (c # classes) = original_classes_loop labelmap d2 classes"
    unfolding d2_def d1_def by (simp only: original_classes_loop.simps Let_def)
  with Cons.IH[OF g2 Cons.prems(2)] Cons.prems(3) show ?case by simp
qed

lemma collect_classes_nodigit:
  "collect_classes acc rows = Inr classes \<Longrightarrow> \<forall>c \<in> set acc. \<not> str_isdigit c \<Longrightarrow>
   \<forall>c \<in> set classes. \<not> str_isdigit c"
  using collect_classes_set[of acc rows classes] by auto

lemma read_original_classes_nodigit:
  "read_original_classes acc csv_files = Inr classes \<Longrightarrow> \<forall>c \<in> set acc. \<not> str_isdigit c \<Longrightarrow>
   \<forall>c \<in> set classes. \<not> str_isdigit c"
proof (induction acc csv_files rule: read_original_classes.induct)
  case (1 original_classes)
  then show ?case by simp
next
  case (2 original_classes csv_files)
  then show ?case by simp
next
  case (3 original_classes rows csv_files)
  from "3.prems"(1) obtain mid where m: "collect_classes original_classes rows = Inr mid"
    and r: "read_original_classes mid csv_files = Inr classes"
    by (auto split: sum.splits)
  from collect_classes_nodigit[OF m "3.prems"(2)] "3.IH"[OF m r] show ?case by blast
qed

lemma build_class_to_id_good:
  assumes "list_all (\<lambda>item. 0 < object_id item \<longrightarrow> \<not> str_isdigit (object_name item) \<and> 0 \<le> label_id item) labelmap"
    and "\<forall>c \<in> set original_classes. \<not> str_isdigit c"
    and "set (set_order original_classes) \<subseteq> set original_classes"
  shows "\<forall>(k, v) \<in> set (build_class_to_id set_order labelmap original_classes). \<not> str_isdigit k \<and> 0 \<le> v"
proof -
  have "\<forall>(k, v) \<in> set (variations_loop [] labelmap). \<not> str_isdigit k \<and> 0 \<le> v"
    by (rule variations_loop_good[OF _ assms(1)]) simp
  moreover have "\<forall>c \<in> set (set_order original_classes). \<not> str_isdigit c"
    using assms(2,3) by blast
  ultimately show ?thesis
    unfolding build_class_to_id_def by (rule original_classes_loop_good[OF _ assms(1)])
qed

lemma digit_unresolved:
  assumes "\<forall>(k, v) \<in> set d. \<not> str_isdigit k \<and> 0 \<le> v" and "str_isdigit l"
  shows "label_id_of_class_name d l = None"
proof -
  have "dict_get d l = None"
    using assms by (auto simp: dict_get_None_key)
  moreover have "scan_items d l = None"
  proof (rule ccontr)
    assume "scan_items d l \<noteq> None"
    then obtain v k where "(k, v) \<in> set d" "str_lower k = str_lower l"
      using scan_items_Some by fastforce
    hence "str_isdigit k" "\<not> str_isdigit k"
      using assms str_isdigit_lower[of k] str_isdigit_lower[of l] by auto
    thus False by simp
  qed
  ultimately show ?thesis by (simp add: label_id_of_class_name_def)
qed

lemma resolved_nonneg:
  assumes "\<forall>(k, v) \<in> set d. \<not> str_isdigit k \<and> 0 \<le> v" and "label_id_of_class_name d l = Some v"
  shows "0 \<le> v"
proof -
  from assms(2) have "(\<exists>k. (k, v) \<in> set d)"
    using dict_get_Some_mem[of d l v] scan_items_Some[of d l v]
    by (auto simp: label_id_of_class_name_def split: option.splits)
  with assms(1) show ?thesis by auto
qed

lemma update_rows_unresolved:
  "\<forall>row \<in> set body. 6 \<le> length row \<longrightarrow> label_id_of_class_name d (str_strip (row ! 5)) = None \<Longrightarrow>
   \<exists>printed'. update_rows d name (rows, updated, printed) body = (rows @ body, updated, printed')"
proof (induction body arbitrary: rows printed)
  case Nil
  then show ?case by simp
next
  case (Cons row body)
  show ?case
  proof (cases "6 \<le> length row")
    case True
    with Cons.prems have n: "label_id_of_class_name d (str_strip (row ! 5)) = None" by simp
    from Cons.IH[of "rows @ [row]"] Cons.prems True n show ?thesis
      by (simp add: Let_def)
  next
    case False
    with Cons.IH[of "rows @ [row]" printed] Cons.prems show ?thesis by simp
  qed
qed

lemma update_rows_result:
  assumes "\<forall>(k, v) \<in> set d. \<not> str_isdigit k \<and> 0 \<le> v"
  shows "\<exists>new updated' printed'.
           update_rows d name (rows, updated, printed) body = (rows @ new, updated', printed') \<and>
           (\<forall>row \<in> set new. 6 \<le> length row \<longrightarrow> label_id_of_class_name d (str_strip (row ! 5)) = None)"
proof (induction body arbitrary: rows updated printed)
  case Nil
  show ?case by (rule exI[of _ "[]"]) simp
next
  case (Cons row body)
  show ?case
  proof (cases "6 \<le> length row")
    case False
    from Cons.IH[of "rows @ [row]" updated printed] obtain new u p where
      "update_rows d name (rows @ [row], updated, printed) body = ((rows @ [row]) @ new, u, p)"
      "\<forall>r \<in> set new. 6 \<le> length r \<longrightarrow> label_id_of_class_name d (str_strip (r ! 5)) = None"
      by blast
    with False show ?thesis
      by (intro exI[of _ "row # new"]) simp
  next
    case True
    show ?thesis
    proof (cases "label_id_of_class_name d (str_strip (row ! 5))")
      case None
      from Cons.IH[of "rows @ [row]" updated] obtain new u p where
        "update_rows d name (rows @ [row], updated,
            printed @ [''Warning: Could not find label ID for '' @ [CHR 0x27] @ str_strip (row ! 5) @
                           [CHR 0x27] @ '' in '' @ name]) body = ((rows @ [row]) @ new, u, p)"
        "\<forall>r \<in> set new. 6 \<le> length r \<longrightarrow> label_id_of_class_name d (str_strip (r ! 5)) = None"
        by blast
      with True None show ?thesis
        by (intro exI[of _ "row # new"]) (simp add: Let_def)
    next
      case (Some v)
      hence "0 \<le> v" using resolved_nonneg[OF assms] by blast
      hence dg: "str_isdigit (str_int v)" by (rule str_isdigit_str_int)
      have un: "label_id_of_class_name d (str_strip (str_int v)) = None"
        using digit_unresolved[OF assms dg] str_strip_digits[OF dg] by simp
      from Cons.IH[of "rows @ [row[5 := str_int v]]" True printed] obtain new u p where
        "update_rows d name (rows @ [row[5 := str_int v]], True, printed) body =
           ((rows @ [row[5 := str_int v]]) @ new, u, p)"
        "\<forall>r \<in> set new. 6 \<le> length r \<longrightarrow> label_id_of_class_name d (str_strip (r ! 5)) = None"
        by blast
      with True Some un show ?thesis
        by (intro exI[of _ "row[5 := str_int v] # new"]) (simp add: Let_def)
    qed
  qed
qed

lemma update_rows_flag:
  "update_rows d name (rows, updated, printed) body = (rows', updated', printed') \<Longrightarrow>
   updated' = (updated \<or> (\<exists>row \<in> set body. 6 \<le> length row \<and>
                  label_id_of_class_name d (str_strip (row ! 5)) \<noteq> None))"
proof (induction body arbitrary: rows updated printed)
  case Nil
  then show ?case by simp
next
  case (Cons row body)
  show ?case
  proof (cases "6 \<le> length row")
    case False
    with Cons.prems Cons.IH[of "rows @ [row]" updated printed] show ?thesis by simp
  next
    case True
    show ?thesis
    proof (cases "label_id_of_class_name d (str_strip (row ! 5))")
      case None
      with True Cons.prems Cons.IH[of "rows @ [row]" updated] show ?thesis
        by (simp add: Let_def)
    next
      case (Some v)
      with True Cons.prems Cons.IH[of "rows @ [row[5 := str_int v]]" True printed] show ?thesis
        by (simp add: Let_def)
    qed
  qed
qed

lemma update_files_unresolved:
  "\<forall>(name, content) \<in> set csv_files. \<forall>row \<in> set (tl content).
      6 \<le> length row \<longrightarrow> label_id_of_class_name d (str_strip (row ! 5)) = None \<Longrightarrow>
   run_files (update_files d (handled, written, printed, n) csv_files) = handled @ csv_files \<and>
   run_written (update_files d (handled, written, printed, n) csv_files) = written \<and>
   (run_error (update_files d (handled, written, printed, n) csv_files) = None) =
     (\<forall>(name, content) \<in> set csv_files. content \<noteq> [])"
proof (induction csv_files arbitrary: handled printed)
  case Nil
  then show ?case by simp
next
  case (Cons f csv_files)
  obtain name content where f: "f = (name, content)" by (cases f)
  show ?case
  proof (cases content)
    case Nil
    then show ?thesis by (simp add: f)
  next
    case (Cons header body)
    from Cons.prems f Cons have "\<forall>row \<in> set body.
        6 \<le> length row \<longrightarrow> label_id_of_class_name d (str_strip (row ! 5)) = None"
      by simp
    from update_rows_unresolved[OF this, of name "[header]" False printed]
    obtain p where p: "update_rows d name ([header], False, printed) body = ([header] @ body, False, p)"
      by blast
    from Cons.IH[of "handled @ [(name, content)]" p] Cons.prems p Cons f
    show ?thesis by simp
  qed
qed

lemma update_files_result:
  assumes "\<forall>(k, v) \<in> set d. \<not> str_isdigit k \<and> 0 \<le> v"
    and "run_error (update_files d (handled, written, printed, n) csv_files) = None"
  shows "\<exists>new. run_files (update_files d (handled, written, printed, n) csv_files) = handled @ new \<and>
           (\<forall>(name, content) \<in> set new. content \<noteq> [] \<and>
              (\<forall>row \<in> set (tl content).
                 6 \<le> length row \<longrightarrow> label_id_of_class_name d (str_strip (row ! 5)) = None))"
  using assms(2)
proof (induction csv_files arbitrary: handled written printed n)
  case Nil
  show ?case by (rule exI[of _ "[]"]) simp
next
  case (Cons f csv_files)
  obtain name content where f: "f = (name, content)" by (cases f)
  show ?case
  proof (cases content)
    case Nil
    with Cons.prems f show ?thesis by simp
  next
    case (Cons header body)
    from update_rows_result[OF assms(1), of name "[header]" False printed body]
    obtain new u p where
      r: "update_rows d name ([header], False, printed) body = ([header] @ new, u, p)" and
      un: "\<forall>row \<in> set new. 6 \<le> length row \<longrightarrow> label_id_of_class_name d (str_strip (row ! 5)) = None"
      by blast
    show ?thesis
    proof (cases u)
      case True
      with Cons.prems f Cons r have
        e: "run_error (update_files d (handled @ [(name, header # new)], written @ [name], p, n + 1) csv_files) = None"
        by simp
      from Cons.IH[OF e] obtain rest where
        "run_files (update_files d (handled @ [(name, header # new)], written @ [name], p, n + 1) csv_files) =
           (handled @ [(name, header # new)]) @ rest"
        "\<forall>(name, content) \<in> set rest. content \<noteq> [] \<and>
              (\<forall>row \<in> set (tl content).
                 6 \<le> length row \<longrightarrow> label_id_of_class_name d (str_strip (row ! 5)) = None)"
        by blast
      with True f Cons r un show ?thesis
        by (intro exI[of _ "(name, header # new) # rest"]) simp
    next
      case False
      have same: "new = body"
      proof -
        have "\<forall>row \<in> set body. 6 \<le> length row \<longrightarrow> label_id_of_class_name d (str_strip (row ! 5)) = None"
          using update_rows_flag[OF r] False by blast
        from update_rows_unresolved[OF this, of name "[header]" False printed] r show ?thesis
          by auto
      qed
      with Cons.prems f Cons r False have
        e: "run_error (update_files d (handled @ [(name, content)], written, p, n) csv_files) = None"
        by simp
      from Cons.IH[OF e] obtain rest where
        "run_files (update_files d (handled @ [(name, content)], written, p, n) csv_files) =
           (handled @ [(name, content)]) @ rest"
        "\<forall>(name, content) \<in> set rest. content \<noteq> [] \<and>
              (\<forall>row \<in> set (tl content).
                 6 \<le> length row \<longrightarrow> label_id_of_class_name d (str_strip (row ! 5)) = None)"
        by blast
      with False f Cons r un same show ?thesis
        by (intro exI[of _ "(name, content) # rest"]) simp
    qed
  qed
qed

lemma update_files_written:
  "run_error (update_files d (handled, written, printed, n) csv_files) = None \<Longrightarrow>
   run_written (update_files d (handled, written, printed, n) csv_files) =
     written @ map fst (filter (\<lambda>(name, content). \<exists>row \<in> set (tl content). 6 \<le> length row \<and>
        label_id_of_class_name d (str_strip (row ! 5)) \<noteq> None) csv_files)"
proof (induction csv_files arbitrary: handled written printed n)
  case Nil
  then show ?case by simp
next
  case (Cons f csv_files)
  obtain name content where f: "f = (name, content)" by (cases f)
  show ?case
  proof (cases content)
    case Nil
    with Cons.prems f show ?thesis by simp
  next
    case (Cons header body)
    obtain rows u p where r: "update_rows d name ([header], False, printed) body = (rows, u, p)"
      by (cases "update_rows d name ([header], False, printed) body") auto
    from update_rows_flag[OF r] have u: "u = (\<exists>row \<in> set body. 6 \<le> length row \<and>
                  label_id_of_class_name d (str_strip (row ! 5)) \<noteq> None)"
      by simp
    show ?thesis
    proof (cases u)
      case True
      hence r': "update_rows d name ([header], False, printed) body = (rows, True, p)"
        using r by simp
      have ex: "\<exists>row \<in> set body. 6 \<le> length row \<and>
                  label_id_of_class_name d (str_strip (row ! 5)) \<noteq> None"
        using u True by simp
      from Cons.prems f Cons r' have
        "run_error (update_files d (handled @ [(name, rows)], written @ [name], p, n + 1) csv_files) = None"
        by simp
      from Cons.IH[OF this] ex show ?thesis
        unfolding f Cons by (simp add: r')
    next
      case False
      hence r': "update_rows d name ([header], False, printed) body = (rows, False, p)"
        using r by simp
      have ex: "\<not> (\<exists>row \<in> set body. 6 \<le> length row \<and>
                  label_id_of_class_name d (str_strip (row ! 5)) \<noteq> None)"
        using u False by simp
      from Cons.prems f Cons r' have
        "run_error (update_files d (handled @ [(name, content)], written, p, n) csv_files) = None"
        by simp
      from Cons.IH[OF this] ex show ?thesis
        unfolding f Cons by (simp add: r')
    qed
  qed
qed

lemma str_isdigit_replace_su [simp]: "str_isdigit (str_replace CHR '' '' CHR ''_'' s) = str_isdigit s"
proof -
  have "is_digit_char (if c = CHR '' '' then CHR ''_'' else c) = is_digit_char c" for c
    by simp
  hence "list_all is_digit_char (map (\<lambda>c. if c = CHR '' '' then CHR ''_'' else c) s) =
         list_all is_digit_char s"
    by (induction s) simp_all
  thus ?thesis by (simp add: str_isdigit_def str_replace_def)
qed

text \<open>Every labelmap the reorganizer writes has non-numeric class names and ids from 0 on.\<close>

lemma create_labelmap_well_formed:
  assumes "get_all_classes csv_files = Inr classes"
  shows "list_all (\<lambda>item. 0 < object_id item \<longrightarrow> \<not> str_isdigit (object_name item) \<and> 0 \<le> label_id item)
           (fst (create_labelmap classes))"
proof -
  obtain added where added: "collect_all_classes [] csv_files = Inr added"
    and classes: "classes = sorted_set added"
    using assms by (auto simp: get_all_classes_def split: sum.splits)
  have nd: "\<forall>c \<in> set classes. \<not> str_isdigit c"
    using collect_all_classes_set[OF added] by (auto simp: classes)
  have "sort classes = classes"
    by (simp add: classes sorted_sort_id)
  hence "fst (create_labelmap classes) =
           background_entry #
           map (\<lambda>i. \<lparr>object_id = 1 + int i, label_id = 1 + int i,
                       keyboard_shortcut = str_int (1 + int i),
                       object_name = str_replace CHR '' '' CHR ''_'' (str_lower (classes ! i))\<rparr>)
             [0..<length classes]"
    by (simp add: create_labelmap_def create_labelmap_loop_fst)
  thus ?thesis
    using nd by (simp add: background_entry_def list_all_iff)
qed



subsection \<open>C5: the three spellings of a canonical name\<close>

text \<open>
  C5, as stated, holds for any labelmap entry. It fails when two entries share an
  \<open>object_name\<close>, which the reorganizer writes for class names that differ only in
  case: for the classes \<open>Apple leaf\<close> and \<open>apple leaf\<close> the labelmap has two entries named
  \<open>apple_leaf\<close>, with ids 1 and 2, and all three spellings resolve to 2 in both resolvers,
  not to the first entry's 1 (the later entry overwrites the table). It also fails for
  the background entry, whose name resolves to nothing.
\<close>

theorem spellings_resolve_counterexample:
  "get_all_classes [[[(''class'', Some ''Apple leaf'')], [(''class'', Some ''apple leaf'')]]] =
     Inr [''Apple leaf'', ''apple leaf''] \<and>
   fst (create_labelmap [''Apple leaf'', ''apple leaf'']) =
     [\<lparr>object_id = 0, label_id = 0, keyboard_shortcut = ''0'', object_name = ''background''\<rparr>,
      \<lparr>object_id = 1, label_id = 1, keyboard_shortcut = ''1'', object_name = ''apple_leaf''\<rparr>,
      \<lparr>object_id = 2, label_id = 2, keyboard_shortcut = ''2'', object_name = ''apple_leaf''\<rparr>] \<and>
   map (category_id_of_label (load_labelmap (fst (create_labelmap [''Apple leaf'', ''apple leaf'']))))
     [''apple_leaf'', ''Apple Leaf'', ''Apple_Leaf''] = [Inr (Some 2), Inr (Some 2), Inr (Some 2)] \<and>
   map (label_id_of_class_name
          (build_class_to_id remdups (fst (create_labelmap [''Apple leaf'', ''apple leaf'']))
             [''Apple leaf'', ''apple leaf'']))
     [''apple_leaf'', ''Apple Leaf'', ''Apple_Leaf''] = [Some 2, Some 2, Some 2] \<and>
   category_id_of_label (load_labelmap example_labelmap) ''background'' = Inr None \<and>
   label_id_of_class_name (build_class_to_id remdups example_labelmap []) ''background'' = None"
  by code_simp

lemma lower_lower_char [simp]: "lower_char (lower_char c) = lower_char c"
  by (simp add: lower_char_def is_upper_char_def)

lemma lower_upper_char [simp]: "lower_char (upper_char c) = lower_char c"
proof (cases "is_lower_char c")
  case True
  hence b: "97 \<le> (of_char c :: nat)" "(of_char c :: nat) \<le> 122"
    by (simp_all add: is_lower_char_def)
  hence u: "(of_char (upper_char c) :: nat) = of_char c - 32"
    using True by (simp add: of_char_upper_char)
  have "is_upper_char (upper_char c)"
    unfolding is_upper_char_def u using b by linarith
  hence "(of_char (lower_char (upper_char c)) :: nat) = of_char c - 32 + 32"
    using u by (simp add: of_char_lower_char)
  hence "(of_char (lower_char (upper_char c)) :: nat) = of_char c"
    using b by linarith
  moreover have "\<not> is_upper_char c" using b by (simp add: is_upper_char_def)
  hence "lower_char c = c" by (simp add: lower_char_def)
  ultimately show ?thesis by (metis of_char_eq_iff)
next
  case False
  then show ?thesis by (simp add: upper_char_def)
qed

lemma lower_title_from: "map lower_char (title_from b s) = map lower_char s"
  by (induction s arbitrary: b) simp_all

lemma str_lower_title [simp]: "str_lower (str_title s) = str_lower s"
  by (simp add: str_lower_def str_title_def lower_title_from)

lemma str_lower_capitalize [simp]: "str_lower (str_capitalize s) = str_lower s"
  by (cases s) (simp_all add: str_lower_def str_capitalize_def)

lemma str_lower_append [simp]: "str_lower (s @ t) = str_lower s @ str_lower t"
  by (simp add: str_lower_def)

lemma str_lower_id: "list_all (\<lambda>c. \<not> is_upper_char c) s \<Longrightarrow> str_lower s = s"
  by (induction s) (simp_all add: str_lower_def lower_char_def)

lemma str_lower_leaf [simp]: "str_lower '' leaf'' = '' leaf''"
  by code_simp

lemma canonical_lower: "canonical_name s \<Longrightarrow> str_lower s = s"
  by (rule str_lower_id) (simp add: canonical_name_def list_all_iff)

lemma replace_us_no_upper:
  "list_all (\<lambda>c. \<not> is_upper_char c) s \<Longrightarrow>
   list_all (\<lambda>c. \<not> is_upper_char c) (str_replace CHR ''_'' CHR '' '' s)"
  by (induction s) (simp_all add: str_replace_def is_upper_char_def)

lemma canonical_lower_replace:
  "canonical_name s \<Longrightarrow> str_lower (str_replace CHR ''_'' CHR '' '' s) = str_replace CHR ''_'' CHR '' '' s"
  by (rule str_lower_id, rule replace_us_no_upper) (simp add: canonical_name_def list_all_iff)

lemma replace_back:
  "CHR '' '' \<notin> set s \<Longrightarrow> str_replace CHR '' '' CHR ''_'' (str_replace CHR ''_'' CHR '' '' s) = s"
  by (induction s) (auto simp: str_replace_def)

lemma replace_su_id: "CHR '' '' \<notin> set s \<Longrightarrow> str_replace CHR '' '' CHR ''_'' s = s"
  by (induction s) (auto simp: str_replace_def)

lemma replace_us_id: "CHR '' '' \<notin> set (str_replace CHR ''_'' CHR '' '' s) \<Longrightarrow> str_replace CHR ''_'' CHR '' '' s = s"
  by (induction s) (auto simp: str_replace_def split: if_splits)

lemma replace_us_inj:
  "CHR '' '' \<notin> set a \<Longrightarrow> CHR '' '' \<notin> set b \<Longrightarrow>
   str_replace CHR ''_'' CHR '' '' a = str_replace CHR ''_'' CHR '' '' b \<Longrightarrow> a = b"
  using replace_back by metis

lemma replace_us_append [simp]:
  "str_replace CHR ''_'' CHR '' '' (s @ t) = str_replace CHR ''_'' CHR '' '' s @ str_replace CHR ''_'' CHR '' '' t"
  by (simp add: str_replace_def)

lemma replace_us_leaf [simp]: "str_replace CHR ''_'' CHR '' '' ''_leaf'' = '' leaf''"
  by (simp add: str_replace_def)

lemma canonical_no_space: "canonical_name s \<Longrightarrow> CHR '' '' \<notin> set s"
  by (auto simp: canonical_name_def list_all_iff)

lemma endswith_split: "str_endswith s suffix \<Longrightarrow> s = take (length s - length suffix) s @ suffix"
  by (metis append_take_drop_id str_endswith_def)

text \<open>Normalizing each of the three spellings of a canonical name gives the name back.\<close>

lemma normalize_spellings:
  assumes "canonical_name n"
  shows "str_replace CHR '' '' CHR ''_'' (str_lower n) = n"
    and "str_replace CHR '' '' CHR ''_'' (str_lower (str_title (str_replace CHR ''_'' CHR '' '' n))) = n"
    and "str_replace CHR '' '' CHR ''_'' (str_lower (str_title n)) = n"
  using assms
  by (simp_all add: canonical_lower canonical_lower_replace replace_back replace_su_id canonical_no_space)

text \<open>A canonical name is among the exporter's keys for a canonical name only when the
  two names are the same.\<close>

lemma exporter_key_name:
  assumes "canonical_name n" and "canonical_name m"
    and "n \<in> {m, str_replace CHR ''_'' CHR '' '' m, str_title (str_replace CHR ''_'' CHR '' '' m), str_title m}"
  shows "m = n"
proof -
  have r: "n = str_replace CHR ''_'' CHR '' '' m \<Longrightarrow> m = n"
    using replace_us_id[of m] canonical_no_space[OF assms(1)] by simp
  from assms(3) consider "n = m" | "n = str_replace CHR ''_'' CHR '' '' m"
    | "n = str_title (str_replace CHR ''_'' CHR '' '' m)" | "n = str_title m"
    by blast
  then show ?thesis
  proof cases
    case 1
    then show ?thesis by simp
  next
    case 2
    then show ?thesis by (rule r)
  next
    case 3
    hence "str_lower n = str_lower (str_replace CHR ''_'' CHR '' '' m)" by simp
    hence "n = str_replace CHR ''_'' CHR '' '' m"
      using assms by (simp add: canonical_lower canonical_lower_replace)
    then show ?thesis by (rule r)
  next
    case 4
    hence "str_lower n = str_lower m" by simp
    then show ?thesis using assms by (simp add: canonical_lower)
  qed
qed

text \<open>The variations of a canonical name, lowercased.\<close>

lemma variations_lower:
  assumes "canonical_name m" and "var \<in> set (variations m)"
  shows "str_lower var = m \<or> str_lower var = str_replace CHR ''_'' CHR '' '' m \<or>
         (str_endswith m ''_leaf'' \<and> str_lower var = take (length m - 5) m @ '' leaf'')"
proof (cases "str_endswith m ''_leaf''")
  case False
  with assms show ?thesis
    by (auto simp: variations_def canonical_lower canonical_lower_replace)
next
  case True
  define base where "base = take (length m - 5) m"
  have "length ''_leaf'' = 5" by simp
  hence m: "m = base @ ''_leaf''"
    using endswith_split[OF True] unfolding base_def by metis
  have cb: "canonical_name base"
    using assms(1) m by (metis canonical_name_def list_all_append)
  have rm: "str_replace CHR ''_'' CHR '' '' base @ '' leaf'' = str_replace CHR ''_'' CHR '' '' m"
    using arg_cong[OF m, of "str_replace CHR ''_'' CHR '' ''"] by simp
  from assms(2) True consider
    "var \<in> {m, str_replace CHR ''_'' CHR '' '' m, str_title (str_replace CHR ''_'' CHR '' '' m),
             str_title m, str_capitalize (str_replace CHR ''_'' CHR '' '' m)}"
    | "var = str_replace CHR ''_'' CHR '' '' base @ '' leaf''"
    | "var = str_title (str_replace CHR ''_'' CHR '' '' base) @ '' leaf''"
    | "var = str_title base @ '' leaf''"
    by (auto simp: variations_def Let_def base_def)
  then show ?thesis
  proof cases
    case 1
    with assms(1) show ?thesis
      by (auto simp: canonical_lower canonical_lower_replace)
  next
    case 2
    hence "str_lower var = str_replace CHR ''_'' CHR '' '' m"
      using assms(1) by (simp add: rm canonical_lower_replace)
    then show ?thesis by simp
  next
    case 3
    hence "str_lower var = str_replace CHR ''_'' CHR '' '' base @ '' leaf''"
      using cb by (simp add: canonical_lower_replace)
    then show ?thesis by (simp add: rm)
  next
    case 4
    hence "str_lower var = base @ '' leaf''"
      using cb by (simp add: canonical_lower)
    with True show ?thesis by (simp add: base_def)
  qed
qed

lemma updater_key_name:
  assumes n: "canonical_name n" and m: "canonical_name m"
    and sp: "spelling \<in> {n, str_title (str_replace CHR ''_'' CHR '' '' n), str_title n}"
    and var: "spelling \<in> set (variations m)"
  shows "m = n"
proof -
  have nsn: "CHR '' '' \<notin> set n" and nsm: "CHR '' '' \<notin> set m"
    using n m by (simp_all add: canonical_no_space)
  have low: "str_lower spelling = n \<or> str_lower spelling = str_replace CHR ''_'' CHR '' '' n"
    using sp n by (auto simp: canonical_lower canonical_lower_replace)
  have rn: "str_replace CHR ''_'' CHR '' '' n = m \<Longrightarrow> m = n"
    using replace_us_id[of n] nsm by auto
  have rm: "n = str_replace CHR ''_'' CHR '' '' m \<Longrightarrow> m = n"
    using replace_us_id[of m] nsn by auto
  have rr: "str_replace CHR ''_'' CHR '' '' n = str_replace CHR ''_'' CHR '' '' m \<Longrightarrow> m = n"
    using replace_us_inj[OF nsn nsm] by simp
  from variations_lower[OF m var] consider
    "str_lower spelling = m" | "str_lower spelling = str_replace CHR ''_'' CHR '' '' m"
    | "str_endswith m ''_leaf''" "str_lower spelling = take (length m - 5) m @ '' leaf''"
    by blast
  then show ?thesis
  proof cases
    case 1
    with low rn show ?thesis by auto
  next
    case 2
    with low rm rr show ?thesis by auto
  next
    case 3
    define base where "base = take (length m - 5) m"
    have "length ''_leaf'' = 5" by simp
    hence mb: "m = base @ ''_leaf''"
      using endswith_split[OF 3(1)] unfolding base_def by metis
    have sl: "str_lower spelling = base @ '' leaf''"
      using 3(2) by (simp add: base_def)
    have "str_lower spelling \<noteq> n"
      using sl nsn by auto
    with low have eq: "str_replace CHR ''_'' CHR '' '' n = base @ '' leaf''"
      using sl by simp
    have "CHR ''_'' \<notin> set (str_replace CHR ''_'' CHR '' '' n)"
      by (auto simp: str_replace_def)
    hence "CHR ''_'' \<notin> set base" using eq by simp
    hence "str_replace CHR ''_'' CHR '' '' base = base"
      by (induction base) (auto simp: str_replace_def)
    hence "str_replace CHR ''_'' CHR '' '' m = base @ '' leaf''"
      using arg_cong[OF mb, of "str_replace CHR ''_'' CHR '' ''"] by simp
    with eq rr show ?thesis by simp
  qed
qed

lemma set_variations_get:
  "dict_get (set_variations d vars v) k = (if k \<in> set vars then Some v else dict_get d k)"
  by (induction vars arbitrary: d) (auto simp: dict_get_dict_set)

lemma variations_loop_get:
  assumes "\<forall>m \<in> set labelmap. 0 < object_id m \<and> k \<in> set (variations (object_name m)) \<longrightarrow> label_id m = v"
    and "dict_get d k = Some v \<or> (\<exists>m \<in> set labelmap. 0 < object_id m \<and> k \<in> set (variations (object_name m)))"
  shows "dict_get (variations_loop d labelmap) k = Some v"
  using assms
proof (induction labelmap arbitrary: d)
  case Nil
  then show ?case by simp
next
  case (Cons item labelmap)
  show ?case
  proof (cases "0 < object_id item")
    case False
    with Cons.prems Cons.IH[of d] show ?thesis by auto
  next
    case True
    let ?d = "set_variations d (variations (object_name item)) (label_id item)"
    have all: "\<forall>m \<in> set labelmap. 0 < object_id m \<and> k \<in> set (variations (object_name m)) \<longrightarrow> label_id m = v"
      using Cons.prems(1) by simp
    have "dict_get ?d k = Some v \<or> (\<exists>m \<in> set labelmap. 0 < object_id m \<and> k \<in> set (variations (object_name m)))"
      using Cons.prems True by (auto simp: set_variations_get)
    from Cons.IH[OF all this] True show ?thesis by simp
  qed
qed

lemma load_labelmap_loop_get:
  assumes "\<forall>m \<in> set labelmap. 0 < object_id m \<and>
      k \<in> {object_name m, str_replace CHR ''_'' CHR '' '' (object_name m),
           str_title (str_replace CHR ''_'' CHR '' '' (object_name m)), str_title (object_name m)} \<longrightarrow>
      label_id m = v"
    and "dict_get d k = Some v \<or> (\<exists>m \<in> set labelmap. 0 < object_id m \<and>
      k \<in> {object_name m, str_replace CHR ''_'' CHR '' '' (object_name m),
           str_title (str_replace CHR ''_'' CHR '' '' (object_name m)), str_title (object_name m)})"
  shows "dict_get (load_labelmap_loop d labelmap) k = Some v"
  using assms
proof (induction labelmap arbitrary: d)
  case Nil
  then show ?case by simp
next
  case (Cons item labelmap)
  show ?case
  proof (cases "0 < object_id item")
    case False
    with Cons.prems Cons.IH[of d] show ?thesis by auto
  next
    case True
    let ?d = "dict_set (dict_set (dict_set (dict_set d (object_name item) (label_id item))
        (str_replace CHR ''_'' CHR '' '' (object_name item)) (label_id item))
        (str_title (str_replace CHR ''_'' CHR '' '' (object_name item))) (label_id item))
        (str_title (object_name item)) (label_id item)"
    have all: "\<forall>m \<in> set labelmap. 0 < object_id m \<and>
      k \<in> {object_name m, str_replace CHR ''_'' CHR '' '' (object_name m),
           str_title (str_replace CHR ''_'' CHR '' '' (object_name m)), str_title (object_name m)} \<longrightarrow>
      label_id m = v"
      using Cons.prems(1) by simp
    have "dict_get ?d k = Some v \<or> (\<exists>m \<in> set labelmap. 0 < object_id m \<and>
      k \<in> {object_name m, str_replace CHR ''_'' CHR '' '' (object_name m),
           str_title (str_replace CHR ''_'' CHR '' '' (object_name m)), str_title (object_name m)})"
      using Cons.prems True by (auto simp: dict_get_dict_set)
    from Cons.IH[OF all this] True show ?thesis by (simp add: Let_def)
  qed
qed

lemma first_named_Some:
  assumes "item \<in> set labelmap" and "0 < object_id item"
    and "\<forall>m \<in> set labelmap. 0 < object_id m \<and> object_name m = object_name item \<longrightarrow> label_id m = label_id item"
  shows "first_named labelmap (object_name item) = Some (label_id item)"
  using assms(1,3)
proof (induction labelmap)
  case Nil
  then show ?case by simp
next
  case (Cons a labelmap)
  show ?case
  proof (cases "0 < object_id a \<and> object_name a = object_name item")
    case True
    hence "label_id a = label_id item" using Cons.prems(2) by simp
    with True show ?thesis by simp
  next
    case False
    hence "item \<noteq> a" using assms(2) by blast
    hence "item \<in> set labelmap" using Cons.prems(1) by simp
    moreover have "\<forall>m \<in> set labelmap. 0 < object_id m \<and> object_name m = object_name item \<longrightarrow> label_id m = label_id item"
      using Cons.prems(2) by simp
    ultimately have "first_named labelmap (object_name item) = Some (label_id item)"
      by (rule Cons.IH)
    with False show ?thesis by auto
  qed
qed

lemma original_classes_loop_get:
  assumes "dict_get d k = Some v"
    and "first_named labelmap (str_replace CHR '' '' CHR ''_'' (str_lower k)) = Some v"
  shows "dict_get (original_classes_loop labelmap d classes) k = Some v"
  using assms(1)
proof (induction classes arbitrary: d)
  case Nil
  then show ?case by simp
next
  case (Cons c classes)
  define d1 where "d1 = (case first_named labelmap (str_replace CHR '' '' CHR ''_'' (str_lower c)) of
               Some label \<Rightarrow> dict_set d c label | None \<Rightarrow> d)"
  define d2 where "d2 = (if dict_get d1 c = None then
               (case scan_items d1 c of Some val \<Rightarrow> dict_set d1 c val | None \<Rightarrow> d1)
             else d1)"
  have g1: "dict_get d1 k = Some v"
    using Cons.prems assms(2) by (auto simp: d1_def dict_get_dict_set split: option.splits)
  have g2: "dict_get d2 k = Some v"
    using g1 by (auto simp: d2_def dict_get_dict_set split: option.splits)
  have "original_classes_loop labelmap d (c # classes) = original_classes_loop labelmap d2 classes"
    unfolding d2_def d1_def by (simp only: original_classes_loop.simps Let_def)
  with Cons.IH[OF g2] show ?case by simp
qed

lemma not_upper_lower_char: "\<not> is_upper_char (lower_char c)"
  by (auto simp: is_upper_char_def of_char_lower_char)

lemma canonical_normalized: "canonical_name (str_replace CHR '' '' CHR ''_'' (str_lower s))"
proof -
  have "\<not> is_upper_char CHR ''_''" by (simp add: is_upper_char_def)
  thus ?thesis
    by (induction s) (simp_all add: canonical_name_def str_replace_def str_lower_def not_upper_lower_char)
qed

text \<open>Every labelmap the reorganizer writes has canonical class names.\<close>

lemma create_labelmap_canonical:
  "list_all (\<lambda>m. 0 < object_id m \<longrightarrow> canonical_name (object_name m)) (fst (create_labelmap classes))"
  by (simp add: create_labelmap_def create_labelmap_loop_fst background_entry_def list_all_iff
      canonical_normalized)

text \<open>
  C5, amended: in a labelmap whose class names past the background are all canonical
  (every labelmap \<open>create_labelmap\<close> writes is such), for an entry past the background
  whose \<open>object_name\<close> is not a numeric string and is shared only with entries of the
  same \<open>label_id\<close>, the underscore form, the title-cased space form and the title-cased
  underscore form of the name all resolve to that entry's \<open>label_id\<close>: in the exporter's
  resolver, and in the updater's resolver whatever the original class names are and in
  whatever order Python iterates over them.
\<close>

theorem spellings_resolve:
  assumes item: "item \<in> set labelmap" and past: "0 < object_id item"
    and non_numeric: "\<not> str_isdigit (object_name item)"
    and canonical: "list_all (\<lambda>m. 0 < object_id m \<longrightarrow> canonical_name (object_name m)) labelmap"
    and unique: "\<forall>m \<in> set labelmap. 0 < object_id m \<and> object_name m = object_name item \<longrightarrow>
                   label_id m = label_id item"
    and spelling: "spelling \<in> {object_name item,
                     str_title (str_replace CHR ''_'' CHR '' '' (object_name item)),
                     str_title (object_name item)}"
  shows "category_id_of_label (load_labelmap labelmap) spelling = Inr (Some (label_id item)) \<and>
         label_id_of_class_name (build_class_to_id set_order labelmap original_classes) spelling =
           Some (label_id item)"
proof -
  let ?n = "object_name item"
  have cn: "canonical_name ?n"
    using item past canonical by (auto simp: list_all_iff)
  have cm: "canonical_name (object_name m)" if "m \<in> set labelmap" "0 < object_id m" for m
    using that canonical by (auto simp: list_all_iff)
  have nd: "\<not> str_isdigit spelling"
    using spelling non_numeric by auto
  have norm: "str_replace CHR '' '' CHR ''_'' (str_lower spelling) = ?n"
    using spelling normalize_spellings[OF cn] by auto
  have "dict_get (load_labelmap_loop [] labelmap) ?n = Some (label_id item)"
  proof (rule load_labelmap_loop_get)
    show "\<forall>m \<in> set labelmap. 0 < object_id m \<and>
      ?n \<in> {object_name m, str_replace CHR ''_'' CHR '' '' (object_name m),
           str_title (str_replace CHR ''_'' CHR '' '' (object_name m)), str_title (object_name m)} \<longrightarrow>
      label_id m = label_id item"
      using exporter_key_name[OF cn cm] unique by blast
    show "dict_get [] ?n = Some (label_id item) \<or> (\<exists>m \<in> set labelmap. 0 < object_id m \<and>
      ?n \<in> {object_name m, str_replace CHR ''_'' CHR '' '' (object_name m),
           str_title (str_replace CHR ''_'' CHR '' '' (object_name m)), str_title (object_name m)})"
      using item past by blast
  qed
  hence exporter: "category_id_of_label (load_labelmap labelmap) spelling = Inr (Some (label_id item))"
    using nd norm by (simp add: category_id_of_label_def load_labelmap_def)
  have own: "spelling \<in> set (variations ?n)"
    using spelling by (auto simp: variations_def)
  have "dict_get (variations_loop [] labelmap) spelling = Some (label_id item)"
  proof (rule variations_loop_get)
    show "\<forall>m \<in> set labelmap. 0 < object_id m \<and> spelling \<in> set (variations (object_name m)) \<longrightarrow>
            label_id m = label_id item"
      using updater_key_name[OF cn cm spelling] unique by blast
    show "dict_get [] spelling = Some (label_id item) \<or>
          (\<exists>m \<in> set labelmap. 0 < object_id m \<and> spelling \<in> set (variations (object_name m)))"
      using item past own by blast
  qed
  moreover have "first_named labelmap (str_replace CHR '' '' CHR ''_'' (str_lower spelling)) =
                 Some (label_id item)"
    unfolding norm by (rule first_named_Some[OF item past unique])
  ultimately have "dict_get (build_class_to_id set_order labelmap original_classes) spelling =
                   Some (label_id item)"
    unfolding build_class_to_id_def by (rule original_classes_loop_get)
  hence updater: "label_id_of_class_name (build_class_to_id set_order labelmap original_classes) spelling =
           Some (label_id item)"
    by (simp add: label_id_of_class_name_def)
  from exporter updater show ?thesis by simp
qed

theorem spellings_resolve_witness:
  "map (category_id_of_label (load_labelmap example_labelmap))
     [''rust_leaf'', ''Rust Leaf'', ''Rust_Leaf''] = [Inr (Some 1), Inr (Some 1), Inr (Some 1)] \<and>
   map (label_id_of_class_name (build_class_to_id remdups example_labelmap [''Rust leaf'']))
     [''rust_leaf'', ''Rust Leaf'', ''Rust_Leaf''] = [Some 1, Some 1, Some 1]"
proof -
  let ?item = "\<lparr>object_id = 1, label_id = 1, keyboard_shortcut = ''1'', object_name = ''rust_leaf''\<rparr>"
  have item: "?item \<in> set example_labelmap"
    by (simp add: example_labelmap_def)
  have past: "0 < object_id ?item" by simp
  have non_numeric: "\<not> str_isdigit (object_name ?item)"
    by code_simp
  have canonical: "list_all (\<lambda>m. 0 < object_id m \<longrightarrow> canonical_name (object_name m)) example_labelmap"
    by code_simp
  have unique: "\<forall>m \<in> set example_labelmap. 0 < object_id m \<and> object_name m = object_name ?item \<longrightarrow>
                   label_id m = label_id ?item"
    by (simp add: example_labelmap_def)
  have forms: "str_title (str_replace CHR ''_'' CHR '' '' ''rust_leaf'') = ''Rust Leaf''"
    "str_title ''rust_leaf'' = ''Rust_Leaf''"
    by code_simp+
  note r = spellings_resolve [OF item past non_numeric canonical unique, where set_order = remdups
      and original_classes = "[''Rust leaf'']"]
  have "category_id_of_label (load_labelmap example_labelmap) s = Inr (Some 1) \<and>
        label_id_of_class_name (build_class_to_id remdups example_labelmap [''Rust leaf'']) s = Some 1"
    if "s \<in> {''rust_leaf'', ''Rust Leaf'', ''Rust_Leaf''}" for s
    using r[of s] that forms by auto
  thus ?thesis by simp
qed

subsection \<open>C10: numeric labels are taken as category ids\<close>

text \<open>What \<open>parse_csv_boxes\<close> returns: the rows that \<open>parse_row\<close> accepts, in the order of the
  file; and it returns whenever no cell of the five columns is \<open>None\<close>.\<close>

lemma parse_rows_eq:
  "parse_rows to_float class_to_id acc rows = Inr boxes \<Longrightarrow>
   boxes = acc @ List.map_filter
     (\<lambda>row. case parse_row to_float class_to_id row of Inr (Some b) \<Rightarrow> Some b | _ \<Rightarrow> None) rows"
proof (induction rows arbitrary: acc)
  case Nil
  then show ?case by simp
next
  case (Cons row rows)
  show ?case
  proof (cases "parse_row to_float class_to_id row")
    case (Inl e)
    with Cons.prems Cons.IH[of acc] show ?thesis
      by (auto split: if_splits)
  next
    case (Inr r)
    show ?thesis
    proof (cases r)
      case None
      with Inr Cons.prems Cons.IH[of acc] show ?thesis
        by simp
    next
      case (Some b)
      with Inr Cons.prems Cons.IH[of "acc @ [b]"] show ?thesis
        by simp
    qed
  qed
qed

lemma parse_rows_member:
  assumes "parse_rows to_float class_to_id acc rows = Inr boxes"
    and "row \<in> set rows" and "parse_row to_float class_to_id row = Inr (Some b)"
  shows "b \<in> set boxes"
proof -
  have "b \<in> set (List.map_filter
     (\<lambda>row. case parse_row to_float class_to_id row of Inr (Some b) \<Rightarrow> Some b | _ \<Rightarrow> None) rows)"
    using assms(2,3) by (force simp: List.map_filter_def)
  thus ?thesis using parse_rows_eq[OF assms(1)] by simp
qed

lemma get_float_error:
  "get_float to_float row key = Inl e \<Longrightarrow> dict_get row key \<noteq> Some None \<Longrightarrow> e = ValueError"
  by (auto simp: get_float_def split: option.splits)

lemma category_id_of_label_error:
  "category_id_of_label class_to_id label = Inl e \<Longrightarrow> e = ValueError"
  by (auto simp: category_id_of_label_def str_to_int_def Let_def split: if_splits option.splits)

lemma parse_row_error:
  assumes "parse_row to_float class_to_id row = Inl e"
    and "\<forall>key \<in> set [''x'', ''y'', ''width'', ''height'', ''label'']. dict_get row key \<noteq> Some None"
  shows "e = ValueError"
proof -
  have l: "row_get_strip row ''label'' \<noteq> Inl e'" for e'
    using assms(2) by (auto simp: row_get_strip_def split: option.splits)
  from assms(2) have c: "dict_get row ''x'' \<noteq> Some None" "dict_get row ''y'' \<noteq> Some None"
    "dict_get row ''width'' \<noteq> Some None" "dict_get row ''height'' \<noteq> Some None"
    by simp_all
  from assms(1) show ?thesis
    unfolding parse_row_def
    using get_float_error[OF _ c(1)] get_float_error[OF _ c(2)] get_float_error[OF _ c(3)]
      get_float_error[OF _ c(4)] l category_id_of_label_error
    by (auto split: sum.splits option.splits)
qed

lemma parse_rows_returns:
  "\<forall>row \<in> set rows. \<forall>key \<in> set [''x'', ''y'', ''width'', ''height'', ''label''].
      dict_get row key \<noteq> Some None \<Longrightarrow>
   \<exists>boxes. parse_rows to_float class_to_id acc rows = Inr boxes"
proof (induction rows arbitrary: acc)
  case Nil
  then show ?case by simp
next
  case (Cons row rows)
  have rest: "\<exists>boxes. parse_rows to_float class_to_id acc' rows = Inr boxes" for acc'
    using Cons.IH Cons.prems by simp
  show ?case
  proof (cases "parse_row to_float class_to_id row")
    case (Inl e)
    hence "e = ValueError" using parse_row_error Cons.prems by (metis list.set_intros(1))
    with Inl rest[of acc] show ?thesis by simp
  next
    case (Inr r)
    with rest[of acc] rest show ?thesis by (cases r) auto
  qed
qed

lemma parse_csv_boxes_returns:
  "\<forall>rows. csv_path = Some (Some rows) \<longrightarrow>
      (\<forall>row \<in> set rows. \<forall>key \<in> set [''x'', ''y'', ''width'', ''height'', ''label''].
         dict_get row key \<noteq> Some None) \<Longrightarrow>
   \<exists>boxes. parse_csv_boxes to_float csv_path class_to_id = Inr boxes"
  using parse_rows_returns[of _ to_float class_to_id "[]"]
  by (auto simp: parse_csv_boxes_def split: option.splits)

text \<open>What the loop over the stems returns: an annotation for every box of every stem that
  has an image; and it returns whenever every image has a size and every CSV file parses.\<close>

lemma stems_loop_contains:
  assumes "stems_loop to_float ds category class_to_id (images, annotations, ic, ac) stems =
             Inr (images', annotations', ic', ac')"
  shows "set annotations \<subseteq> set annotations' \<and>
         (\<forall>stem \<in> set stems. \<forall>img_name boxes.
            find_image (ds_exists ds) stem image_extensions = Some img_name \<longrightarrow>
            parse_csv_boxes to_float (ds_csv ds (stem @ ''.csv'')) class_to_id = Inr boxes \<longrightarrow>
            (\<forall>b \<in> set boxes. \<exists>a \<in> set annotations'.
               ann_category_id a = box_category_id b \<and>
               ann_bbox a = [box_x b, box_y b, box_width b, box_height b] \<and>
               ann_area a = box_area b))"
  using assms
proof (induction stems arbitrary: images annotations ic ac)
  case Nil
  then show ?case by simp
next
  case (Cons stem stems)
  show ?case
  proof (cases "find_image (ds_exists ds) stem image_extensions")
    case None
    with Cons.prems have
      "stems_loop to_float ds category class_to_id (images, annotations, ic, ac) stems =
         Inr (images', annotations', ic', ac')"
      by simp
    from Cons.IH[OF this] None show ?thesis by simp
  next
    case (Some img_name)
    with Cons.prems obtain width height boxes where
      sz: "ds_image_size ds img_name = Some (width, height)" and
      bx: "parse_csv_boxes to_float (ds_csv ds (stem @ ''.csv'')) class_to_id = Inr boxes"
      by (auto split: option.splits sum.splits)
    define anns where "anns = annotations @ map (\<lambda>j. \<lparr>ann_id = ac + int j, ann_image_id = ic,
            ann_category_id = box_category_id (boxes ! j),
            ann_bbox = [box_x (boxes ! j), box_y (boxes ! j), box_width (boxes ! j), box_height (boxes ! j)],
            ann_area = box_area (boxes ! j), ann_iscrowd = 0\<rparr>) [0..<length boxes]"
    have step: "stems_loop to_float ds category class_to_id
        (images @ [\<lparr>image_id = ic, file_name = category @ ''/images/'' @ img_name,
                  image_width = width, image_height = height\<rparr>], anns, ic + 1, ac + int (length boxes)) stems =
         Inr (images', annotations', ic', ac')"
      using Cons.prems Some sz bx by (simp add: boxes_loop_eq anns_def)
    from Cons.IH[OF step] have sub: "set anns \<subseteq> set annotations'"
      and rest: "\<forall>stem \<in> set stems. \<forall>img_name boxes.
            find_image (ds_exists ds) stem image_extensions = Some img_name \<longrightarrow>
            parse_csv_boxes to_float (ds_csv ds (stem @ ''.csv'')) class_to_id = Inr boxes \<longrightarrow>
            (\<forall>b \<in> set boxes. \<exists>a \<in> set annotations'.
               ann_category_id a = box_category_id b \<and>
               ann_bbox a = [box_x b, box_y b, box_width b, box_height b] \<and>
               ann_area a = box_area b)"
      by blast+
    have here: "\<forall>b \<in> set boxes. \<exists>a \<in> set anns.
               ann_category_id a = box_category_id b \<and>
               ann_bbox a = [box_x b, box_y b, box_width b, box_height b] \<and>
               ann_area a = box_area b"
    proof
      fix b assume "b \<in> set boxes"
      then obtain j where j: "j < length boxes" "boxes ! j = b"
        by (auto simp: in_set_conv_nth)
      let ?a = "\<lparr>ann_id = ac + int j, ann_image_id = ic,
            ann_category_id = box_category_id (boxes ! j),
            ann_bbox = [box_x (boxes ! j), box_y (boxes ! j), box_width (boxes ! j), box_height (boxes ! j)],
            ann_area = box_area (boxes ! j), ann_iscrowd = 0\<rparr>"
      have "?a \<in> set anns" using j(1) by (auto simp: anns_def)
      thus "\<exists>a \<in> set anns.
               ann_category_id a = box_category_id b \<and>
               ann_bbox a = [box_x b, box_y b, box_width b, box_height b] \<and>
               ann_area a = box_area b"
        using j(2) by (intro bexI[of _ ?a]) simp_all
    qed
    have "set annotations \<subseteq> set anns" by (auto simp: anns_def)
    with sub rest here Some bx show ?thesis
      by (auto 4 3)
  qed
qed

lemma stems_loop_returns:
  assumes "\<forall>stem \<in> set stems. \<forall>img_name.
             find_image (ds_exists ds) stem image_extensions = Some img_name \<longrightarrow>
             ds_image_size ds img_name \<noteq> None"
    and "\<forall>stem \<in> set stems. \<forall>rows. ds_csv ds (stem @ ''.csv'') = Some (Some rows) \<longrightarrow>
           (\<forall>row \<in> set rows. \<forall>key \<in> set [''x'', ''y'', ''width'', ''height'', ''label''].
              dict_get row key \<noteq> Some None)"
  shows "\<exists>result. stems_loop to_float ds category class_to_id (images, annotations, ic, ac) stems =
           Inr result"
  using assms
proof (induction stems arbitrary: images annotations ic ac)
  case Nil
  then show ?case by simp
next
  case (Cons stem stems)
  have rest: "\<exists>result. stems_loop to_float ds category class_to_id (i, a, c1, c2) stems = Inr result"
    for i a c1 c2
    using Cons.IH Cons.prems by simp
  show ?case
  proof (cases "find_image (ds_exists ds) stem image_extensions")
    case None
    with rest show ?thesis by simp
  next
    case (Some img_name)
    then obtain width height where sz: "ds_image_size ds img_name = Some (width, height)"
      using Cons.prems(1) by fastforce
    have "\<forall>rows. ds_csv ds (stem @ ''.csv'') = Some (Some rows) \<longrightarrow>
           (\<forall>row \<in> set rows. \<forall>key \<in> set [''x'', ''y'', ''width'', ''height'', ''label''].
              dict_get row key \<noteq> Some None)"
      using Cons.prems(2) by simp
    from parse_csv_boxes_returns[OF this] obtain boxes where
      bx: "parse_csv_boxes to_float (ds_csv ds (stem @ ''.csv'')) class_to_id = Inr boxes"
      by blast
    show ?thesis
      using Some sz bx rest by (simp add: boxes_loop_eq)
  qed
qed

lemma digit_label_parse_row:
  assumes "get_float to_float row ''x'' = Inr x"
    and "get_float to_float row ''y'' = Inr y"
    and "get_float to_float row ''width'' = Inr width"
    and "get_float to_float row ''height'' = Inr height"
    and "row_get_strip row ''label'' = Inr label"
    and "str_isdigit label" and "length label \<le> 4300"
  shows "parse_row to_float class_to_id row =
           Inr (Some \<lparr>box_x = x, box_y = y, box_width = width, box_height = height,
                      box_category_id = int_of_digits label, box_area = width * height\<rparr>)"
proof -
  have "category_id_of_label class_to_id label = Inr (Some (int_of_digits label))"
    using assms(6,7) by (simp add: category_id_of_label_def str_to_int_def int_max_str_digits_def)
  thus ?thesis
    using assms(1-5) by (simp add: parse_row_def)
qed

lemma collect_annotations_contains:
  assumes run: "collect_annotations_for_split to_float ds split_name category =
             Inr (images, annotations, categories)"
    and stem: "stem \<in> set (image_stems ds split_name)"
    and img: "find_image (ds_exists ds) stem image_extensions = Some img_name"
    and csv: "ds_csv ds (stem @ ''.csv'') = Some (Some rows)"
    and row: "row \<in> set rows"
    and pr: "\<And>class_to_id. parse_row to_float class_to_id row = Inr (Some b)"
  shows "\<exists>a \<in> set annotations.
           ann_category_id a = box_category_id b \<and>
           ann_bbox a = [box_x b, box_y b, box_width b, box_height b] \<and>
           ann_area a = box_area b"
proof -
  from run obtain labelmap ic ac where lm: "ds_labelmap ds = Some labelmap"
    and loop: "stems_loop to_float ds category (load_labelmap labelmap) ([], [], 1, 1)
                 (sorted_set (image_stems ds split_name)) = Inr (images, annotations, ic, ac)"
    by (auto simp: collect_annotations_for_split_def Let_def split: option.splits sum.splits)
  from stem have s: "stem \<in> set (sorted_set (image_stems ds split_name))" by simp
  from loop have ex: "\<exists>r. stems_loop to_float ds category (load_labelmap labelmap) ([], [], 1, 1)
                 (sorted_set (image_stems ds split_name)) = Inr r" by simp
  obtain boxes where bx: "parse_csv_boxes to_float (ds_csv ds (stem @ ''.csv'')) (load_labelmap labelmap) = Inr boxes"
  proof (cases "parse_csv_boxes to_float (ds_csv ds (stem @ ''.csv'')) (load_labelmap labelmap)")
    case (Inr boxes)
    then show ?thesis using that by blast
  next
    case (Inl e)
    have "\<And>acc. stem \<in> set stems \<Longrightarrow>
            stems_loop to_float ds category (load_labelmap labelmap) acc stems \<noteq> Inr r" for stems r
    proof (induction stems)
      case Nil
      then show ?case by simp
    next
      case (Cons s stems)
      obtain i a c1 c2 where acc: "acc = (i, a, c1, c2)" by (cases acc) auto
      show ?case
      proof (cases "s = stem")
        case True
        then show ?thesis using Inl img acc by (simp split: option.splits)
      next
        case False
        with Cons.prems have "stem \<in> set stems" by simp
        from Cons.IH[OF this] show ?thesis
          using acc by (simp add: boxes_loop_eq split: option.splits sum.splits)
      qed
    qed
    with s ex show ?thesis by blast
  qed
  from bx csv have "parse_rows to_float (load_labelmap labelmap) [] rows = Inr boxes"
    by (simp add: parse_csv_boxes_def)
  from parse_rows_member[OF this row pr] have "b \<in> set boxes" .
  with stems_loop_contains[OF loop] s img bx show ?thesis by blast
qed

lemma collect_annotations_returns:
  assumes "ds_labelmap ds \<noteq> None"
    and "\<forall>stem \<in> set (image_stems ds split_name). \<forall>img_name.
             find_image (ds_exists ds) stem image_extensions = Some img_name \<longrightarrow>
             ds_image_size ds img_name \<noteq> None"
    and "\<forall>stem \<in> set (image_stems ds split_name). \<forall>rows.
           ds_csv ds (stem @ ''.csv'') = Some (Some rows) \<longrightarrow>
           (\<forall>row \<in> set rows. \<forall>key \<in> set [''x'', ''y'', ''width'', ''height'', ''label''].
              dict_get row key \<noteq> Some None)"
  shows "\<exists>images annotations categories.
           collect_annotations_for_split to_float ds split_name category =
             Inr (images, annotations, categories)"
proof -
  from assms(1) obtain labelmap where lm: "ds_labelmap ds = Some labelmap" by auto
  have "\<exists>result. stems_loop to_float ds category (load_labelmap labelmap) ([], [], 1, 1)
          (sorted_set (image_stems ds split_name)) = Inr result"
    by (rule stems_loop_returns) (use assms(2,3) in simp_all)
  then obtain i a c1 c2 where "stems_loop to_float ds category (load_labelmap labelmap) ([], [], 1, 1)
          (sorted_set (image_stems ds split_name)) = Inr (i, a, c1, c2)"
    by (metis prod_cases4)
  with lm show ?thesis
    by (simp add: collect_annotations_for_split_def Let_def)
qed

lemma str_isdigit_replicate: "is_digit_char c \<Longrightarrow> 0 < n \<Longrightarrow> str_isdigit (replicate n c)"
  by (simp add: str_isdigit_def list_all_iff)

lemma long_digit_label_dropped:
  assumes "get_float to_float row ''x'' = Inr x"
    and "get_float to_float row ''y'' = Inr y"
    and "get_float to_float row ''width'' = Inr width"
    and "get_float to_float row ''height'' = Inr height"
    and "row_get_strip row ''label'' = Inr label"
    and "str_isdigit label" and "4300 < length label"
  shows "parse_csv_boxes to_float (Some (Some [row])) class_to_id = Inr []"
proof -
  have "category_id_of_label class_to_id label = Inl ValueError"
    using assms(6,7) by (simp add: category_id_of_label_def str_to_int_def int_max_str_digits_def)
  hence "parse_row to_float class_to_id row = Inl ValueError"
    using assms(1-5) by (simp add: parse_row_def)
  thus ?thesis by (simp add: parse_csv_boxes_def)
qed




end
